theory Spec2Isabelle
  imports Complex_Main "HOL-Library.AList" "HOL-Library.Multiset"
    "HOL-Library.Char_ord" "HOL-Library.List_Lexorder"
begin

section \<open>Data carried on the sample channel\<close>

text \<open>
  Go's \<^verbatim>\<open>float64\<close> sample values are represented by real numbers. The only values the
  development computes with are \<open>0\<close> and \<open>1\<close> (both exact in \<^verbatim>\<open>float64\<close>); rounding is not
  represented and no statement below depends on it.
\<close>

type_synonym float64 = real

text \<open>\<^verbatim>\<open>dto.LabelPair\<close>, \<^verbatim>\<open>dto.MetricType\<close> and \<^verbatim>\<open>dto.Metric\<close> of the Prometheus client
  model. Each pointer field of \<^verbatim>\<open>dto.Metric\<close> is an option: \<open>None\<close> is \<^verbatim>\<open>nil\<close>.\<close>

datatype LabelPair = LabelPair string string

datatype MetricType = COUNTER | GAUGE | SUMMARY | UNTYPED | HISTOGRAM

record dto_Metric =
  Label :: "LabelPair list"
  Gauge :: "float64 option"
  Counter :: "float64 option"
  Summary :: "float64 option"
  Untyped :: "float64 option"
  Histogram :: "float64 option"
  TimestampMs :: "int option"

record dto_MetricFamily =
  mf_Name :: "string option"
  mf_Help :: "string option"
  mf_Type :: "MetricType option"
  mf_Metric :: "dto_Metric list"

text \<open>Go \<^verbatim>\<open>error\<close> values: the two errors a context reports, an error of the database
  driver, and the error \<^verbatim>\<open>Gather\<close> builds with
  \<^verbatim>\<open>fmt.Errorf("don't know how to handle metric %v", dtoMetric)\<close>.\<close>

datatype error =
    DeadlineExceeded
  | Canceled
  | DriverError string
  | DontKnowHowToHandle dto_Metric

text \<open>\<^verbatim>\<open>prometheus.ValueType\<close>.\<close>

datatype ValueType = CounterValue | GaugeValue | UntypedValue

text \<open>
  Modelled from the spec: the \<^verbatim>\<open>MetricDesc\<close> interface and its implementations are declared
  in a file that is not part of the sources at hand. Following section 3 of the
  specification a descriptor is an immutable identity made of name, help text, type, the
  variable label names in a fixed order and the constant label pairs; the log context is
  the first argument of \<^verbatim>\<open>NewAutomaticMetricDesc\<close>. The fields \<open>Name\<close> and \<open>Help\<close> are the
  two methods \<^verbatim>\<open>Gather\<close> calls.
\<close>

record MetricDesc =
  Name :: string
  Help :: string
  ValueType :: ValueType
  ConstLabels :: "LabelPair list"
  Labels :: "string list"
  LogContext :: string

section \<open>The exporter: draining the channel in \<^verbatim>\<open>Gather\<close>\<close>

text \<open>
  \<^verbatim>\<open>Metric\<close> is an interface whose implementations are not part of the sources at hand, so
  the two methods \<^verbatim>\<open>Gather\<close> calls are parameters of the model: \<open>Write m\<close> is \<open>Inl err\<close> when
  \<^verbatim>\<open>m.Write(dtoMetric)\<close> returns the error \<open>err\<close> and \<open>Inr d\<close> when it returns \<^verbatim>\<open>nil\<close>
  having filled the fresh \<^verbatim>\<open>&dto.Metric{}\<close> to \<open>d\<close>; \<open>Desc m\<close> is \<^verbatim>\<open>m.Desc()\<close>.

  The local variables of the loop: the map \<^verbatim>\<open>dtoMetricFamilies\<close> (an association list
  with one entry per key, in order of first insertion) and the multi-error \<^verbatim>\<open>errs\<close>.
\<close>

record gather_state =
  dtoMetricFamilies :: "(string \<times> dto_MetricFamily) list"
  errs :: "error list"

definition gather_init :: gather_state where
  "gather_init = \<lparr>dtoMetricFamilies = [], errs = []\<rparr>"

text \<open>One iteration of \<^verbatim>\<open>for metric := range metricChan\<close> (lines 89 to 113). The family is
  held by pointer in the map, so appending to an existing family updates the entry.\<close>

definition gather_step ::
  "('m \<Rightarrow> error + dto_Metric) \<Rightarrow> ('m \<Rightarrow> MetricDesc) \<Rightarrow> gather_state \<Rightarrow> 'm \<Rightarrow> gather_state"
where
  "gather_step Write Desc st metric =
    (case Write metric of
       Inl err \<Rightarrow> st\<lparr>errs := errs st @ [err]\<rparr>
     | Inr dtoMetric \<Rightarrow>
        (let metricDesc = Desc metric in
         case map_of (dtoMetricFamilies st) (Name metricDesc) of
           Some dtoMetricFamily \<Rightarrow>
             st\<lparr>dtoMetricFamilies :=
                  AList.update (Name metricDesc)
                    (dtoMetricFamily\<lparr>mf_Metric := mf_Metric dtoMetricFamily @ [dtoMetric]\<rparr>)
                    (dtoMetricFamilies st)\<rparr>
         | None \<Rightarrow>
             (if Gauge dtoMetric \<noteq> None then
                st\<lparr>dtoMetricFamilies :=
                     AList.update (Name metricDesc)
                       \<lparr>mf_Name = Some (Name metricDesc), mf_Help = Some (Help metricDesc),
                        mf_Type = Some GAUGE, mf_Metric = [dtoMetric]\<rparr>
                       (dtoMetricFamilies st)\<rparr>
              else if Counter dtoMetric \<noteq> None then
                st\<lparr>dtoMetricFamilies :=
                     AList.update (Name metricDesc)
                       \<lparr>mf_Name = Some (Name metricDesc), mf_Help = Some (Help metricDesc),
                        mf_Type = Some COUNTER, mf_Metric = [dtoMetric]\<rparr>
                       (dtoMetricFamilies st)\<rparr>
              else st\<lparr>errs := errs st @ [DontKnowHowToHandle dtoMetric]\<rparr>)))"

text \<open>The whole loop over the samples received from the channel until it is closed.\<close>

definition gather_loop ::
  "('m \<Rightarrow> error + dto_Metric) \<Rightarrow> ('m \<Rightarrow> MetricDesc) \<Rightarrow> 'm list \<Rightarrow> gather_state"
where
  "gather_loop Write Desc ms = foldl (gather_step Write Desc) gather_init ms"

text \<open>
  Lines 116 to 120: the families of the map are copied into \<^verbatim>\<open>result\<close> in the iteration
  order of a Go map, which is unspecified. \<open>Gather_returns Write Desc ms (result, es)\<close>
  holds when \<^verbatim>\<open>Gather\<close>, having received the samples \<open>ms\<close>, may return \<open>result\<close> and \<open>es\<close>:
  \<open>result\<close> is any arrangement of the families of the map.
\<close>

definition Gather_returns ::
  "('m \<Rightarrow> error + dto_Metric) \<Rightarrow> ('m \<Rightarrow> MetricDesc) \<Rightarrow> 'm list \<Rightarrow>
     dto_MetricFamily list \<times> error list \<Rightarrow> bool"
where
  "Gather_returns Write Desc ms r \<longleftrightarrow>
     mset (fst r) = mset (map snd (dtoMetricFamilies (gather_loop Write Desc ms))) \<and>
     snd r = errs (gather_loop Write Desc ms)"

text \<open>The fresh \<^verbatim>\<open>&dto.Metric{}\<close> of line 90, into which a sample is written.\<close>

definition dto_Metric_empty :: dto_Metric where
  "dto_Metric_empty = \<lparr>Label = [], Gauge = None, Counter = None, Summary = None,
     Untyped = None, Histogram = None, TimestampMs = None\<rparr>"

text \<open>The family type the \<^verbatim>\<open>switch\<close> of lines 101 to 109 selects for a written sample:
  gauge is tested first, then counter; \<open>None\<close> is the \<^verbatim>\<open>default\<close> case.\<close>

definition written_type :: "dto_Metric \<Rightarrow> MetricType option" where
  "written_type d = (if Gauge d \<noteq> None then Some GAUGE
                     else if Counter d \<noteq> None then Some COUNTER else None)"

text \<open>The property of the specification that all samples of a family have the type of the
  family.\<close>

definition family_one_type :: "dto_MetricFamily \<Rightarrow> bool" where
  "family_one_type f = list_all (\<lambda>d. written_type d = mf_Type f) (mf_Metric f)"

text \<open>
  What the loop maintains for the entry \<open>k\<close> of the map, after the samples \<open>ms\<close>: the family
  is named by its key, its type is gauge or counter, and its first sample is the written
  form of a sample of \<open>ms\<close> with that name, from which the family took help text and type;
  every further sample is the written form of a sample of \<open>ms\<close> with that name.
\<close>

definition family_ok ::
  "('m \<Rightarrow> error + dto_Metric) \<Rightarrow> ('m \<Rightarrow> MetricDesc) \<Rightarrow> 'm list \<Rightarrow> string \<Rightarrow> dto_MetricFamily \<Rightarrow> bool"
where
  "family_ok Write Desc ms k f \<longleftrightarrow>
     mf_Name f = Some k \<and> (mf_Type f = Some GAUGE \<or> mf_Type f = Some COUNTER) \<and>
     (\<exists>m\<in>set ms. \<exists>d ds. Write m = Inr d \<and> mf_Metric f = d # ds \<and> Name (Desc m) = k \<and>
        mf_Help f = Some (Help (Desc m)) \<and> mf_Type f = written_type d \<and>
        (\<forall>d'\<in>set ds. \<exists>m'\<in>set ms. Write m' = Inr d' \<and> Name (Desc m') = k))"

definition gather_inv ::
  "('m \<Rightarrow> error + dto_Metric) \<Rightarrow> ('m \<Rightarrow> MetricDesc) \<Rightarrow> 'm list \<Rightarrow> gather_state \<Rightarrow> bool"
where
  "gather_inv Write Desc ms st \<longleftrightarrow>
     distinct (map fst (dtoMetricFamilies st)) \<and>
     (\<forall>k f. map_of (dtoMetricFamilies st) k = Some f \<longrightarrow> family_ok Write Desc ms k f)"

text \<open>The number of samples held by the families of the map.\<close>

definition family_samples :: "(string \<times> dto_MetricFamily) list \<Rightarrow> nat" where
  "family_samples al = sum_list (map (\<lambda>kf. length (mf_Metric (snd kf))) al)"

text \<open>Where a drained sample has gone: a failed write into the error list, a written sample
  into the family of its name or, when it is neither gauge nor counter, into the error
  list.\<close>

definition accounted ::
  "('m \<Rightarrow> error + dto_Metric) \<Rightarrow> ('m \<Rightarrow> MetricDesc) \<Rightarrow> gather_state \<Rightarrow> 'm \<Rightarrow> bool"
where
  "accounted Write Desc st m \<longleftrightarrow>
    (case Write m of
      Inl e \<Rightarrow> e \<in> set (errs st)
    | Inr d \<Rightarrow>
        (\<exists>f. map_of (dtoMetricFamilies st) (Name (Desc m)) = Some f \<and> d \<in> set (mf_Metric f)) \<or>
        (written_type d = None \<and> DontKnowHowToHandle d \<in> set (errs st)))"

section \<open>The target: probe and scrape\<close>

text \<open>
  Modelled from the spec: the \<^verbatim>\<open>Metric\<close> implementations and their constructors are declared
  in a file that is not part of the sources at hand. Following section 3 of the
  specification a sample is a descriptor with a numeric value and the values of the
  variable labels, or an invalid-metric carrier that transports an error (with its log
  context) through the channel. \<^verbatim>\<open>target.Collect\<close> passes no label values.
\<close>

datatype Metric =
    NewMetric MetricDesc float64 "string list"
  | NewInvalidMetric string error

text \<open>Modelled from the spec: \<^verbatim>\<open>NewAutomaticMetricDesc\<close> is declared in the absent file as well;
  by section 4.2 of the specification the auto-metric variant carries only constant
  labels.\<close>

definition NewAutomaticMetricDesc ::
  "string \<Rightarrow> string \<Rightarrow> string \<Rightarrow> ValueType \<Rightarrow> LabelPair list \<Rightarrow> MetricDesc"
where
  "NewAutomaticMetricDesc logContext name help valueType constLabelPairs =
     \<lparr>Name = name, Help = help, ValueType = valueType, ConstLabels = constLabelPairs,
      Labels = [], LogContext = logContext\<rparr>"

definition capMetricChan :: nat where "capMetricChan = 1000"
definition upMetricName :: string where "upMetricName = ''up''"
definition upMetricHelp :: string where
  "upMetricHelp = ''1 if the target is reachable, or 0 if the scrape failed''"
definition scrapeDurationName :: string where "scrapeDurationName = ''scrape_duration_seconds''"
definition scrapeDurationHelp :: string where
  "scrapeDurationHelp = ''How long it took to scrape the target in seconds''"

text \<open>A \<^verbatim>\<open>*sql.DB\<close> handle, identified by a number; \<^verbatim>\<open>nil\<close> is \<open>None\<close> of the option type.\<close>

datatype sql_DB = DB nat

text \<open>
  The struct \<^verbatim>\<open>target\<close>. \<^verbatim>\<open>Collector\<close> is an interface implemented outside the sources at
  hand: the type \<open>'c\<close> of collectors is a parameter. \<^verbatim>\<open>prometheus.Labels\<close> is a map from label
  name to label value, represented by the list of its entries (one per name).
\<close>

record 'c target =
  name :: string
  dsn :: string
  collectors :: "'c list"
  constLabels :: "(string \<times> string) list"
  upDesc :: MetricDesc
  scrapeDurationDesc :: MetricDesc
  logContext :: string
  conn :: "sql_DB option"

text \<open>The loop of \<^verbatim>\<open>NewTarget\<close> over the collector configurations, which returns at the first
  error of \<^verbatim>\<open>NewCollector\<close> (a function of the absent collector file, hence a parameter,
  already applied to the log context and the constant label pairs).\<close>

fun new_collectors :: "('cc \<Rightarrow> error + 'c) \<Rightarrow> 'cc list \<Rightarrow> error + 'c list" where
  "new_collectors NewCollector [] = Inr []"
| "new_collectors NewCollector (cc # ccs) =
     (case NewCollector cc of
        Inl err \<Rightarrow> Inl err
      | Inr c \<Rightarrow>
         (case new_collectors NewCollector ccs of
            Inl err \<Rightarrow> Inl err
          | Inr cs \<Rightarrow> Inr (c # cs)))"

text \<open>The name of a label pair, by which \<^verbatim>\<open>prometheus.LabelPairSorter\<close> orders.\<close>

fun LabelPair_Name :: "LabelPair \<Rightarrow> string" where
  "LabelPair_Name (LabelPair n v) = n"

text \<open>
  \<^verbatim>\<open>NewTarget\<close>. \<open>Sprintf_target\<close> stands for \<^verbatim>\<open>fmt.Sprintf("%s, target=%q", logContext, name)\<close>
  of the Go library. The label pairs are collected in the iteration order of the map (the
  order of the entry list) and then sorted by label name; the names of a map are distinct,
  so the sorted list does not depend on that order.
\<close>

definition NewTarget ::
  "(string \<Rightarrow> string \<Rightarrow> string) \<Rightarrow> (string \<Rightarrow> 'cc \<Rightarrow> LabelPair list \<Rightarrow> error + 'c) \<Rightarrow>
   string \<Rightarrow> string \<Rightarrow> string \<Rightarrow> 'cc list \<Rightarrow> (string \<times> string) list \<Rightarrow> error + 'c target"
where
  "NewTarget Sprintf_target NewCollector logContext0 name0 dsn0 ccs constLabels0 =
    (let logContext1 = Sprintf_target logContext0 name0;
         constLabelPairs = sort_key LabelPair_Name (map (\<lambda>(n, v). LabelPair n v) constLabels0)
     in case new_collectors (\<lambda>cc. NewCollector logContext1 cc constLabelPairs) ccs of
          Inl err \<Rightarrow> Inl err
        | Inr collectors0 \<Rightarrow>
            Inr \<lparr>name = name0, dsn = dsn0, collectors = collectors0,
                 constLabels = constLabels0,
                 upDesc = NewAutomaticMetricDesc logContext1 upMetricName upMetricHelp
                            GaugeValue constLabelPairs,
                 scrapeDurationDesc = NewAutomaticMetricDesc logContext1 scrapeDurationName
                            scrapeDurationHelp GaugeValue constLabelPairs,
                 logContext = logContext1, conn = None\<rparr>)"

text \<open>
  What one call of \<^verbatim>\<open>target.Collect\<close> meets outside the target.

  \<^item> \<open>OpenConnection\<close> and \<open>PingDB\<close> are the two functions of the absent driver layer: what each
    returns if it is called during this scrape.
  \<^item> The context: \<^verbatim>\<open>ctx.Err()\<close> is \<^verbatim>\<open>nil\<close> until the context is done and the same error
    ever after. \<^verbatim>\<open>ping\<close> reads it at four places, numbered in program order: 0 at line 125,
    1 at line 135, 2 at line 137 and 3 at lines 144 and 145. \<open>ctx_done_from\<close> is the first
    place at which the context is found done (\<open>None\<close>: at none of them), \<open>ctx_error\<close> the
    error it then reports.
  \<^item> \<open>Collector_sends c db\<close> is the sequence of samples \<^verbatim>\<open>c.Collect(ctx, db, ch)\<close> sends on
    the channel during this scrape.
  \<^item> \<open>elapsed\<close> is \<^verbatim>\<open>time.Since(scrapeStart)\<close> at line 115, in nanoseconds.
\<close>

record 'c scrape_env =
  OpenConnection :: "string \<Rightarrow> string \<Rightarrow> error + sql_DB"
  PingDB :: "sql_DB \<Rightarrow> error option"
  ctx_done_from :: "nat option"
  ctx_error :: error
  Collector_sends :: "'c \<Rightarrow> sql_DB option \<Rightarrow> Metric list"
  elapsed :: int

definition ctx_Err :: "('c, 'z) scrape_env_scheme \<Rightarrow> nat \<Rightarrow> error option" where
  "ctx_Err env k =
     (case ctx_done_from env of
        None \<Rightarrow> None
      | Some d \<Rightarrow> if d \<le> k then Some (ctx_error env) else None)"

text \<open>The calls \<^verbatim>\<open>ping\<close> makes into the driver layer, with what they returned: a record kept
  beside the model, to state which calls a scrape makes.\<close>

datatype driver_call =
    OpenConnection_call string "error + sql_DB"
  | PingDB_call sql_DB "error option"

text \<open>
  \<^verbatim>\<open>target.ping\<close>, in its three parts. Each part yields \<open>Some err\<close> where the source returns
  \<^verbatim>\<open>err\<close> and \<open>None\<close> where it goes on. Lines 122 to 132:
\<close>

definition ping_open ::
  "'c target \<Rightarrow> ('c, 'z) scrape_env_scheme \<Rightarrow> error option \<times> 'c target \<times> driver_call list"
where
  "ping_open t env =
    (if conn t = None then
       (case OpenConnection env (logContext t) (dsn t) of
          Inl err \<Rightarrow>
            (if Some err \<noteq> ctx_Err env 0
             then (Some err, t, [OpenConnection_call (dsn t) (Inl err)])
             else (None, t, [OpenConnection_call (dsn t) (Inl err)]))
        | Inr c \<Rightarrow> (None, t\<lparr>conn := Some c\<rparr>, [OpenConnection_call (dsn t) (Inr c)]))
     else (None, t, []))"

text \<open>Lines 135 to 142:\<close>

definition ping_check ::
  "'c target \<Rightarrow> ('c, 'z) scrape_env_scheme \<Rightarrow> error option \<times> driver_call list"
where
  "ping_check t env =
    (case conn t of
       None \<Rightarrow> (None, [])
     | Some c \<Rightarrow>
        (if ctx_Err env 1 = None then
           (case PingDB env c of
              Some err \<Rightarrow>
                (if Some err \<noteq> ctx_Err env 2
                 then (Some err, [PingDB_call c (Some err)])
                 else (None, [PingDB_call c (Some err)]))
            | None \<Rightarrow> (None, [PingDB_call c None]))
         else (None, [])))"

text \<open>The whole of \<^verbatim>\<open>ping\<close>: the error returned (\<open>None\<close> for \<^verbatim>\<open>nil\<close>), the target with its
  connection field as \<^verbatim>\<open>ping\<close> leaves it, and the driver calls made.\<close>

definition ping ::
  "'c target \<Rightarrow> ('c, 'z) scrape_env_scheme \<Rightarrow> error option \<times> 'c target \<times> driver_call list"
where
  "ping t env =
    (case ping_open t env of
       (Some err, t1, calls1) \<Rightarrow> (Some err, t1, calls1)
     | (None, t1, calls1) \<Rightarrow>
        (case ping_check t1 env of
           (Some err, calls2) \<Rightarrow> (Some err, t1, calls1 @ calls2)
         | (None, calls2) \<Rightarrow> (ctx_Err env 3, t1, calls1 @ calls2)))"

text \<open>
  \<^verbatim>\<open>ping\<close> once more, in steps, for probes of one target that overlap: \<^verbatim>\<open>Gather\<close> may be
  called again before an earlier call has returned, all calls run \<^verbatim>\<open>Collect\<close> on the same
  \<^verbatim>\<open>*target\<close>, and \<^verbatim>\<open>ping\<close> takes no lock. A step is the code between two accesses of the
  shared field \<^verbatim>\<open>t.conn\<close>; the places are named by the line at which the probe stands:
  \<^item> \<open>At_122\<close>: the test \<^verbatim>\<open>t.conn == nil\<close>;
  \<^item> \<open>At_123\<close>: the call of \<^verbatim>\<open>OpenConnection\<close> and the comparison of its error with
    \<^verbatim>\<open>ctx.Err()\<close>;
  \<^item> \<open>At_130 c\<close>: the assignment \<^verbatim>\<open>t.conn = conn\<close> of the handle \<open>c\<close> just opened;
  \<^item> \<open>At_135\<close>: the test \<^verbatim>\<open>t.conn != nil && ctx.Err() == nil\<close>;
  \<^item> \<open>At_136\<close>: the call \<^verbatim>\<open>PingDB(ctx, t.conn)\<close>, which reads the field again, and the
    comparison of its error with \<^verbatim>\<open>ctx.Err()\<close>;
  \<^item> \<open>At_144\<close>: the last read of \<^verbatim>\<open>ctx.Err()\<close>;
  \<^item> \<open>Returned r\<close>: \<^verbatim>\<open>ping\<close> has returned \<open>r\<close>; \<open>Panicked\<close>: \<^verbatim>\<open>PingDB\<close> was handed \<^verbatim>\<open>nil\<close>.
  The state shared by the probes is the target and the record of driver calls.
\<close>

datatype ping_pc =
    At_122 | At_123 | At_130 sql_DB | At_135 | At_136 | At_144
  | Returned "error option" | Panicked

fun ping_step ::
  "('c, 'z) scrape_env_scheme \<Rightarrow> ping_pc \<times> 'c target \<times> driver_call list \<Rightarrow>
   ping_pc \<times> 'c target \<times> driver_call list"
where
  "ping_step env (At_122, t, calls) =
     (if conn t = None then (At_123, t, calls) else (At_135, t, calls))"
| "ping_step env (At_123, t, calls) =
     (case OpenConnection env (logContext t) (dsn t) of
        Inl err \<Rightarrow>
          (if Some err \<noteq> ctx_Err env 0
           then (Returned (Some err), t, calls @ [OpenConnection_call (dsn t) (Inl err)])
           else (At_135, t, calls @ [OpenConnection_call (dsn t) (Inl err)]))
      | Inr c \<Rightarrow> (At_130 c, t, calls @ [OpenConnection_call (dsn t) (Inr c)]))"
| "ping_step env (At_130 c, t, calls) = (At_135, t\<lparr>conn := Some c\<rparr>, calls)"
| "ping_step env (At_135, t, calls) =
     (if conn t \<noteq> None \<and> ctx_Err env 1 = None then (At_136, t, calls) else (At_144, t, calls))"
| "ping_step env (At_136, t, calls) =
     (case conn t of
        None \<Rightarrow> (Panicked, t, calls)
      | Some c \<Rightarrow>
         (case PingDB env c of
            Some err \<Rightarrow>
              (if Some err \<noteq> ctx_Err env 2
               then (Returned (Some err), t, calls @ [PingDB_call c (Some err)])
               else (At_144, t, calls @ [PingDB_call c (Some err)]))
          | None \<Rightarrow> (At_144, t, calls @ [PingDB_call c None])))"
| "ping_step env (At_144, t, calls) = (Returned (ctx_Err env 3), t, calls)"
| "ping_step env (Returned r, t, calls) = (Returned r, t, calls)"
| "ping_step env (Panicked, t, calls) = (Panicked, t, calls)"

text \<open>
  Two probes of the same target, each in the environment of its own \<^verbatim>\<open>Gather\<close>, under a
  schedule: \<open>True\<close> lets the first probe take its next step, \<open>False\<close> the second.
\<close>

fun overlap ::
  "('c, 'z) scrape_env_scheme \<Rightarrow> ('c, 'z) scrape_env_scheme \<Rightarrow> bool list \<Rightarrow>
   (ping_pc \<times> ping_pc) \<times> 'c target \<times> driver_call list \<Rightarrow>
   (ping_pc \<times> ping_pc) \<times> 'c target \<times> driver_call list"
where
  "overlap env1 env2 [] st = st"
| "overlap env1 env2 (first # schedule) ((pc1, pc2), t, calls) =
     (if first then
        (case ping_step env1 (pc1, t, calls) of
           (pc1', t', calls') \<Rightarrow> overlap env1 env2 schedule ((pc1', pc2), t', calls'))
      else
        (case ping_step env2 (pc2, t, calls) of
           (pc2', t', calls') \<Rightarrow> overlap env1 env2 schedule ((pc1, pc2'), t', calls')))"

definition boolToFloat64 :: "bool \<Rightarrow> float64" where
  "boolToFloat64 v = (if v then 1 else 0)"

text \<open>
  \<^verbatim>\<open>target.Collect\<close>. The sends of the target itself are sequential: \<open>sent_before\<close> are those
  of lines 93 and 97, before any collector is started, and \<open>sent_after\<close> is that of line 115,
  after \<^verbatim>\<open>wg.Wait()\<close> has seen every collector finish. \<open>started\<close> are the collectors for which
  line 105 starts a goroutine.
\<close>

record 'c collect_result =
  sent_before :: "Metric list"
  started :: "'c list"
  sent_after :: "Metric list"
  target_after :: "'c target"
  driver_calls :: "driver_call list"

definition target_Collect :: "'c target \<Rightarrow> ('c, 'z) scrape_env_scheme \<Rightarrow> 'c collect_result" where
  "target_Collect t env =
    (case ping t env of
       (err, t1, calls) \<Rightarrow>
         (let targetUp = (err = None) in
          \<lparr>sent_before =
             (case err of
                Some e \<Rightarrow> [NewInvalidMetric (logContext t1) e]
              | None \<Rightarrow> []) @
             [NewMetric (upDesc t1) (boolToFloat64 targetUp) []],
           started = (if targetUp then collectors t1 else []),
           sent_after =
             [NewMetric (scrapeDurationDesc t1) (real_of_int (elapsed env) * (1 / 1000000000)) []],
           target_after = t1,
           driver_calls = calls\<rparr>))"

text \<open>
  The collectors run concurrently and send on the one channel: what the channel receives
  from them is an interleaving of their sequences. \<open>interleaving xss ys\<close> holds when \<open>ys\<close>
  merges the lists \<open>xss\<close>, each in its own order.
\<close>

inductive interleaving :: "'a list list \<Rightarrow> 'a list \<Rightarrow> bool" where
  interleaving_done: "list_all (\<lambda>xs. xs = []) xss \<Longrightarrow> interleaving xss []"
| interleaving_step:
    "i < length xss \<Longrightarrow> xss ! i = x # xs \<Longrightarrow> interleaving (xss[i := xs]) ys \<Longrightarrow>
     interleaving xss (x # ys)"

text \<open>\<open>Collect_sends t env tr\<close>: the channel may receive the sequence \<open>tr\<close> from one call of
  \<^verbatim>\<open>target.Collect\<close>. Each started collector is handed the connection field as \<^verbatim>\<open>ping\<close>
  left it.\<close>

definition Collect_sends :: "'c target \<Rightarrow> ('c, 'z) scrape_env_scheme \<Rightarrow> Metric list \<Rightarrow> bool" where
  "Collect_sends t env tr \<longleftrightarrow>
     (\<exists>mid.
        interleaving
          (map (\<lambda>c. Collector_sends env c (conn (target_after (target_Collect t env))))
             (started (target_Collect t env))) mid \<and>
        tr = sent_before (target_Collect t env) @ mid @ sent_after (target_Collect t env))"

text \<open>All samples the started collectors send during one call, collector by collector.\<close>

definition collector_samples :: "'c target \<Rightarrow> ('c, 'z) scrape_env_scheme \<Rightarrow> Metric list" where
  "collector_samples t env =
     concat (map (\<lambda>c. Collector_sends env c (conn (target_after (target_Collect t env))))
               (started (target_Collect t env)))"

text \<open>
  Scrapes of one target that run one after another, each begun after the one before has
  returned and each in its own environment: the target after the last one and all driver
  calls made, in order. Scrapes that overlap are not of this form; their probes are
  composed by \<open>overlap\<close> above.
\<close>

fun scrapes ::
  "'c target \<Rightarrow> ('c, 'z) scrape_env_scheme list \<Rightarrow> 'c target \<times> driver_call list"
where
  "scrapes t [] = (t, [])"
| "scrapes t (env # envs) =
     (case scrapes (target_after (target_Collect t env)) envs of
        (t', calls) \<Rightarrow> (t', driver_calls (target_Collect t env) @ calls))"

text \<open>Calls of \<^verbatim>\<open>OpenConnection\<close> that returned a handle, and calls of \<^verbatim>\<open>OpenConnection\<close>
  at all.\<close>

fun successful_open :: "driver_call \<Rightarrow> bool" where
  "successful_open (OpenConnection_call d (Inr c)) = True"
| "successful_open _ = False"

fun is_open_call :: "driver_call \<Rightarrow> bool" where
  "is_open_call (OpenConnection_call d r) = True"
| "is_open_call _ = False"

text \<open>A ping of the handle \<open>c\<close>.\<close>

fun is_ping_of :: "sql_DB \<Rightarrow> driver_call \<Rightarrow> bool" where
  "is_ping_of c (PingDB_call c' r) = (c' = c)"
| "is_ping_of c (OpenConnection_call d r) = False"

text \<open>Samples by the name of their descriptor; an invalid-metric carrier has none.\<close>

fun metric_named :: "string \<Rightarrow> Metric \<Rightarrow> bool" where
  "metric_named n (NewMetric d v ls) = (Name d = n)"
| "metric_named n (NewInvalidMetric lc e) = False"

section \<open>The context of a scrape\<close>

text \<open>
  Modelled from the spec: the configuration package is not part of the sources at hand.
  Section 3 of the specification lists the global settings; durations are nanoseconds.
\<close>

record Globals =
  MinInterval :: int
  ScrapeTimeout :: int
  ScrapeTimeoutOffset :: int
  MaxConnections :: int

record Config =
  Globals :: Globals

text \<open>The struct \<^verbatim>\<open>exporter\<close>; \<^verbatim>\<open>Gather\<close> reads its configuration and its targets only.\<close>

record 'c exporter =
  config :: Config
  targets :: "'c target list"

text \<open>
  Contexts of the Go library as far as their deadline goes (instants are nanoseconds on
  an unbounded clock): \<^verbatim>\<open>context.Background()\<close> has none; \<^verbatim>\<open>context.WithTimeout(parent, d)\<close>
  is \<^verbatim>\<open>WithDeadline(parent, time.Now().Add(d))\<close>, which keeps an earlier deadline of the
  parent.
\<close>

record go_context =
  Deadline :: "int option"

definition context_Background :: go_context where
  "context_Background = \<lparr>Deadline = None\<rparr>"

definition context_WithDeadline :: "go_context \<Rightarrow> int \<Rightarrow> go_context" where
  "context_WithDeadline parent d =
     (case Deadline parent of
        Some cur \<Rightarrow> if cur < d then parent else \<lparr>Deadline = Some d\<rparr>
      | None \<Rightarrow> \<lparr>Deadline = Some d\<rparr>)"

definition context_WithTimeout :: "go_context \<Rightarrow> int \<Rightarrow> int \<Rightarrow> go_context" where
  "context_WithTimeout parent timeout now = context_WithDeadline parent (now + timeout)"

text \<open>Line 57 of \<^verbatim>\<open>Gather\<close>, called at the instant \<open>now\<close>.\<close>

definition Gather_ctx :: "('c, 'z) exporter_scheme \<Rightarrow> int \<Rightarrow> go_context" where
  "Gather_ctx e now =
     context_WithTimeout context_Background (ScrapeTimeout (Globals (config e))) now"

text \<open>
  The effective deadline in the words of the specification, for comparison: the budget of
  \<open>scrape_timeout\<close> from now, composed with the deadline of the upstream caller less
  \<open>scrape_timeout_offset\<close>.
\<close>

definition spec_effective_deadline :: "Globals \<Rightarrow> int \<Rightarrow> int \<Rightarrow> int" where
  "spec_effective_deadline g now upstream =
     min (now + ScrapeTimeout g) (upstream - ScrapeTimeoutOffset g)"

section \<open>The whole of a scrape\<close>

text \<open>
  \<^verbatim>\<open>Gather\<close> starts one goroutine per target, each running \<^verbatim>\<open>target.Collect\<close> with the shared
  context and channel; a further goroutine closes the channel once all of them are done,
  and the main flow drains the channel until then. So the samples drained are an
  interleaving of the sequences the targets send, each in its own environment (the reads
  of the shared context by a target are part of its environment), and \<^verbatim>\<open>Gather\<close> returns
  what the loop makes of them. The targets are held by pointer: after the scrape each has
  the connection field its probe left.
\<close>

definition Gather ::
  "(Metric \<Rightarrow> error + dto_Metric) \<Rightarrow> (Metric \<Rightarrow> MetricDesc) \<Rightarrow> ('c, 'y) exporter_scheme \<Rightarrow>
   ('c, 'z) scrape_env_scheme list \<Rightarrow> dto_MetricFamily list \<times> error list \<Rightarrow> bool"
where
  "Gather Write Desc e envs r \<longleftrightarrow>
     length envs = length (targets e) \<and>
     (\<exists>trs ms.
        list_all2 (\<lambda>(t, env) tr. Collect_sends t env tr) (zip (targets e) envs) trs \<and>
        interleaving trs ms \<and> Gather_returns Write Desc ms r)"

definition exporter_after ::
  "('c, 'y) exporter_scheme \<Rightarrow> ('c, 'z) scrape_env_scheme list \<Rightarrow> ('c, 'y) exporter_scheme"
where
  "exporter_after e envs =
     e\<lparr>targets := map (\<lambda>(t, env). target_after (target_Collect t env)) (zip (targets e) envs)\<rparr>"

section \<open>Concrete targets and environments for the instances below\<close>

text \<open>A target as \<^verbatim>\<open>NewTarget\<close> builds it, with two collectors named by strings and no
  connection yet.\<close>

definition example_target :: "string target" where
  "example_target =
     \<lparr>name = ''db1'', dsn = ''sqlserver://db1'', collectors = [''c1'', ''c2''],
      constLabels = [(''job'', ''mssql''), (''instance'', ''db1'')],
      upDesc = NewAutomaticMetricDesc ''job=mssql, target=db1'' upMetricName upMetricHelp
                 GaugeValue [LabelPair ''instance'' ''db1'', LabelPair ''job'' ''mssql''],
      scrapeDurationDesc = NewAutomaticMetricDesc ''job=mssql, target=db1'' scrapeDurationName
                 scrapeDurationHelp GaugeValue
                 [LabelPair ''instance'' ''db1'', LabelPair ''job'' ''mssql''],
      logContext = ''job=mssql, target=db1'', conn = None\<rparr>"

text \<open>A descriptor of a collector metric and the samples the two collectors send.\<close>

definition example_desc :: MetricDesc where
  "example_desc =
     \<lparr>Name = ''mssql_log_growths'', Help = ''log growths'', ValueType = CounterValue,
      ConstLabels = [LabelPair ''instance'' ''db1'', LabelPair ''job'' ''mssql''],
      Labels = [''db''], LogContext = ''job=mssql, target=db1''\<rparr>"

definition example_sends :: "string \<Rightarrow> sql_DB option \<Rightarrow> Metric list" where
  "example_sends c db =
     (if c = ''c1'' then [NewMetric example_desc 3 [''master''], NewMetric example_desc 5 [''tempdb'']]
      else [NewInvalidMetric ''job=mssql, target=db1'' (DriverError ''query failed'')])"

text \<open>The database answers: the open succeeds, the ping succeeds, the deadline is not
  reached.\<close>

definition env_up :: "string scrape_env" where
  "env_up =
     \<lparr>OpenConnection = (\<lambda>lc d. Inr (DB 1)), PingDB = (\<lambda>c. None), ctx_done_from = None,
      ctx_error = DeadlineExceeded, Collector_sends = example_sends, elapsed = 2000000\<rparr>"

text \<open>The same for a second scrape of the same target, whose open returns another handle.\<close>

definition env_up_again :: "string scrape_env" where
  "env_up_again =
     \<lparr>OpenConnection = (\<lambda>lc d. Inr (DB 2)), PingDB = (\<lambda>c. None), ctx_done_from = None,
      ctx_error = DeadlineExceeded, Collector_sends = example_sends, elapsed = 2000000\<rparr>"

text \<open>The handle is created but the ping fails with an error of the driver.\<close>

definition env_ping_fails :: "string scrape_env" where
  "env_ping_fails =
     \<lparr>OpenConnection = (\<lambda>lc d. Inr (DB 1)), PingDB = (\<lambda>c. Some (DriverError ''server down'')),
      ctx_done_from = None, ctx_error = DeadlineExceeded, Collector_sends = example_sends,
      elapsed = 2000000\<rparr>"

text \<open>The open fails with an error of the driver.\<close>

definition env_open_fails :: "string scrape_env" where
  "env_open_fails =
     \<lparr>OpenConnection = (\<lambda>lc d. Inl (DriverError ''unknown host'')), PingDB = (\<lambda>c. None),
      ctx_done_from = None, ctx_error = DeadlineExceeded, Collector_sends = example_sends,
      elapsed = 2000000\<rparr>"

text \<open>The handle is created, then the deadline expires during the ping: \<^verbatim>\<open>PingDB\<close> returns the
  error of the context, which is done from the read of line 137 on.\<close>

definition env_deadline_in_ping :: "string scrape_env" where
  "env_deadline_in_ping =
     \<lparr>OpenConnection = (\<lambda>lc d. Inr (DB 1)), PingDB = (\<lambda>c. Some DeadlineExceeded),
      ctx_done_from = Some 2, ctx_error = DeadlineExceeded, Collector_sends = example_sends,
      elapsed = 9000000000\<rparr>"

text \<open>The deadline expires during the open: \<^verbatim>\<open>OpenConnection\<close> returns the error of the
  context, which is done from the read of line 125 on.\<close>

definition env_deadline_in_open :: "string scrape_env" where
  "env_deadline_in_open =
     \<lparr>OpenConnection = (\<lambda>lc d. Inl DeadlineExceeded), PingDB = (\<lambda>c. None),
      ctx_done_from = Some 0, ctx_error = DeadlineExceeded, Collector_sends = example_sends,
      elapsed = 9000000000\<rparr>"

section \<open>Properties of the drain loop\<close>

lemma gather_loop_Nil: "gather_loop Write Desc [] = gather_init"
  by (simp add: gather_loop_def)

lemma gather_loop_snoc:
  "gather_loop Write Desc (ms @ [m]) = gather_step Write Desc (gather_loop Write Desc ms) m"
  by (simp add: gather_loop_def)

lemma family_ok_mono:
  "family_ok Write Desc ms k f \<Longrightarrow> family_ok Write Desc (ms @ [m]) k f"
  unfolding family_ok_def by fastforce

lemma family_ok_new:
  assumes "Write m = Inr d" and "written_type d = Some t"
  shows "family_ok Write Desc (ms @ [m]) (Name (Desc m))
           \<lparr>mf_Name = Some (Name (Desc m)), mf_Help = Some (Help (Desc m)),
            mf_Type = Some t, mf_Metric = [d]\<rparr>"
proof -
  from assms(2) have "t = GAUGE \<or> t = COUNTER"
    by (auto simp: written_type_def split: if_splits)
  with assms show ?thesis
    unfolding family_ok_def by auto
qed

lemma family_ok_append:
  assumes "family_ok Write Desc ms k f" and "Write m = Inr d" and "Name (Desc m) = k"
  shows "family_ok Write Desc (ms @ [m]) k (f\<lparr>mf_Metric := mf_Metric f @ [d]\<rparr>)"
proof -
  from assms(1) obtain m0 d0 ds where
    m0: "m0 \<in> set ms" "Write m0 = Inr d0" "mf_Metric f = d0 # ds" "Name (Desc m0) = k"
      "mf_Help f = Some (Help (Desc m0))" "mf_Type f = written_type d0"
      "\<forall>d'\<in>set ds. \<exists>m'\<in>set ms. Write m' = Inr d' \<and> Name (Desc m') = k"
    and nm: "mf_Name f = Some k" and ty: "mf_Type f = Some GAUGE \<or> mf_Type f = Some COUNTER"
    unfolding family_ok_def by blast
  have "\<forall>d'\<in>set (ds @ [d]). \<exists>m'\<in>set (ms @ [m]). Write m' = Inr d' \<and> Name (Desc m') = k"
    using m0(7) assms(2,3) by auto
  moreover have "mf_Metric (f\<lparr>mf_Metric := mf_Metric f @ [d]\<rparr>) = d0 # (ds @ [d])"
    using m0(3) by simp
  ultimately show ?thesis
    unfolding family_ok_def using m0(1,2,4,5,6) nm ty
    by (intro conjI) (simp, simp, rule bexI[of _ m0], auto)
qed

lemma gather_step_Inl:
  "Write m = Inl e \<Longrightarrow> gather_step Write Desc st m = st\<lparr>errs := errs st @ [e]\<rparr>"
  by (simp add: gather_step_def)

lemma gather_step_append:
  "Write m = Inr d \<Longrightarrow> map_of (dtoMetricFamilies st) (Name (Desc m)) = Some f \<Longrightarrow>
   gather_step Write Desc st m =
     st\<lparr>dtoMetricFamilies :=
          AList.update (Name (Desc m)) (f\<lparr>mf_Metric := mf_Metric f @ [d]\<rparr>)
            (dtoMetricFamilies st)\<rparr>"
  by (simp add: gather_step_def)

lemma gather_step_new:
  "Write m = Inr d \<Longrightarrow> map_of (dtoMetricFamilies st) (Name (Desc m)) = None \<Longrightarrow>
   written_type d = Some t \<Longrightarrow>
   gather_step Write Desc st m =
     st\<lparr>dtoMetricFamilies :=
          AList.update (Name (Desc m))
            \<lparr>mf_Name = Some (Name (Desc m)), mf_Help = Some (Help (Desc m)),
             mf_Type = Some t, mf_Metric = [d]\<rparr>
            (dtoMetricFamilies st)\<rparr>"
  by (auto simp: gather_step_def written_type_def Let_def split: if_splits)

lemma gather_step_unknown:
  "Write m = Inr d \<Longrightarrow> map_of (dtoMetricFamilies st) (Name (Desc m)) = None \<Longrightarrow>
   written_type d = None \<Longrightarrow>
   gather_step Write Desc st m = st\<lparr>errs := errs st @ [DontKnowHowToHandle d]\<rparr>"
  by (auto simp: gather_step_def written_type_def Let_def split: if_splits)

lemma gather_inv_mono:
  "gather_inv Write Desc ms st \<Longrightarrow> gather_inv Write Desc (ms @ [m]) st"
  unfolding gather_inv_def by (blast intro: family_ok_mono)

lemma gather_inv_errs:
  "gather_inv Write Desc ms st \<Longrightarrow> gather_inv Write Desc ms (st\<lparr>errs := es\<rparr>)"
  unfolding gather_inv_def by simp

lemma gather_inv_update:
  assumes "gather_inv Write Desc ms st" and "family_ok Write Desc ms k v"
  shows "gather_inv Write Desc ms
           (st\<lparr>dtoMetricFamilies := AList.update k v (dtoMetricFamilies st)\<rparr>)"
  using assms unfolding gather_inv_def
  by (simp add: distinct_update update_conv' del: map_of_eq_Some_iff)

lemma gather_step_inv:
  assumes "gather_inv Write Desc ms st"
  shows "gather_inv Write Desc (ms @ [m]) (gather_step Write Desc st m)"
proof -
  have inv': "gather_inv Write Desc (ms @ [m]) st"
    using assms by (rule gather_inv_mono)
  show ?thesis
  proof (cases "Write m")
    case (Inl e)
    then show ?thesis
      using inv' by (simp add: gather_step_Inl gather_inv_errs)
  next
    case (Inr d)
    show ?thesis
    proof (cases "map_of (dtoMetricFamilies st) (Name (Desc m))")
      case (Some f)
      with assms have "family_ok Write Desc ms (Name (Desc m)) f"
        unfolding gather_inv_def by blast
      then have "family_ok Write Desc (ms @ [m]) (Name (Desc m))
                   (f\<lparr>mf_Metric := mf_Metric f @ [d]\<rparr>)"
        using Inr by (rule family_ok_append) simp
      then show ?thesis
        using inv' Inr Some by (simp add: gather_step_append gather_inv_update)
    next
      case None
      show ?thesis
      proof (cases "written_type d")
        case None': None
        show ?thesis
          using inv' Inr None None' by (simp add: gather_step_unknown gather_inv_errs)
      next
        case (Some t)
        have "family_ok Write Desc (ms @ [m]) (Name (Desc m))
           \<lparr>mf_Name = Some (Name (Desc m)), mf_Help = Some (Help (Desc m)),
            mf_Type = Some t, mf_Metric = [d]\<rparr>"
          using Inr Some by (rule family_ok_new)
        then show ?thesis
          using inv' Inr None Some by (simp add: gather_step_new gather_inv_update)
      qed
    qed
  qed
qed

lemma gather_loop_inv: "gather_inv Write Desc ms (gather_loop Write Desc ms)"
proof (induction ms rule: rev_induct)
  case Nil
  show ?case by (simp add: gather_loop_Nil gather_init_def gather_inv_def)
next
  case (snoc m ms)
  then show ?case by (simp add: gather_loop_snoc gather_step_inv)
qed

lemma family_samples_update_new:
  "map_of al k = None \<Longrightarrow>
   family_samples (AList.update k v al) = family_samples al + length (mf_Metric v)"
  by (induction al) (auto simp: family_samples_def split: if_splits)

lemma family_samples_update_old:
  "map_of al k = Some f \<Longrightarrow>
   family_samples (AList.update k v al) + length (mf_Metric f) =
   family_samples al + length (mf_Metric v)"
  by (induction al) (auto simp: family_samples_def split: if_splits)

lemma gather_step_count:
  "length (errs (gather_step Write Desc st m)) +
     family_samples (dtoMetricFamilies (gather_step Write Desc st m)) =
   Suc (length (errs st) + family_samples (dtoMetricFamilies st))"
proof (cases "Write m")
  case (Inl e)
  then show ?thesis by (simp add: gather_step_Inl)
next
  case (Inr d)
  show ?thesis
  proof (cases "map_of (dtoMetricFamilies st) (Name (Desc m))")
    case (Some f)
    from family_samples_update_old[OF Some, of "f\<lparr>mf_Metric := mf_Metric f @ [d]\<rparr>"]
    show ?thesis using Inr Some by (simp add: gather_step_append)
  next
    case None
    show ?thesis
    proof (cases "written_type d")
      case None': None
      show ?thesis using Inr None None' by (simp add: gather_step_unknown)
    next
      case (Some t)
      show ?thesis using Inr None Some
        by (simp add: gather_step_new family_samples_update_new)
    qed
  qed
qed

lemma gather_loop_count:
  "length (errs (gather_loop Write Desc ms)) +
     family_samples (dtoMetricFamilies (gather_loop Write Desc ms)) = length ms"
proof (induction ms rule: rev_induct)
  case Nil
  show ?case by (simp add: gather_loop_Nil gather_init_def family_samples_def)
next
  case (snoc m ms)
  then show ?case by (simp add: gather_loop_snoc gather_step_count)
qed

text \<open>Errors are only ever appended, families only ever grow.\<close>

lemma gather_step_errs_prefix:
  "\<exists>es. errs (gather_step Write Desc st m) = errs st @ es"
  by (auto simp: gather_step_def Let_def split: sum.splits option.splits)

lemma gather_step_family_grows:
  assumes "map_of (dtoMetricFamilies st) k = Some f"
  shows "\<exists>f'. map_of (dtoMetricFamilies (gather_step Write Desc st m)) k = Some f' \<and>
              set (mf_Metric f) \<subseteq> set (mf_Metric f')"
  using assms
  by (auto simp: gather_step_def Let_def update_conv' split: sum.splits option.splits)

lemma gather_step_accounts:
  "(case Write m of
      Inl e \<Rightarrow> e \<in> set (errs (gather_step Write Desc st m))
    | Inr d \<Rightarrow>
        (\<exists>f. map_of (dtoMetricFamilies (gather_step Write Desc st m)) (Name (Desc m)) = Some f \<and>
              d \<in> set (mf_Metric f)) \<or>
        (written_type d = None \<and> DontKnowHowToHandle d \<in> set (errs (gather_step Write Desc st m))))"
  by (auto simp: gather_step_def Let_def update_conv' written_type_def split: sum.splits option.splits)

lemma accounted_step:
  assumes "accounted Write Desc st m'"
  shows "accounted Write Desc (gather_step Write Desc st m) m'"
proof -
  obtain es where es: "errs (gather_step Write Desc st m) = errs st @ es"
    using gather_step_errs_prefix[where Write=Write and Desc=Desc and st=st and m=m] by blast
  show ?thesis
  proof (cases "Write m'")
    case (Inl e)
    with assms es show ?thesis by (simp add: accounted_def)
  next
    case (Inr d)
    with assms consider
      f where "map_of (dtoMetricFamilies st) (Name (Desc m')) = Some f" "d \<in> set (mf_Metric f)"
      | "written_type d = None" "DontKnowHowToHandle d \<in> set (errs st)"
      by (auto simp: accounted_def)
    then show ?thesis
    proof cases
      case 1
      from gather_step_family_grows[OF 1(1), where Write=Write and Desc=Desc and m=m] 1(2) Inr show ?thesis
        by (auto simp: accounted_def)
    next
      case 2
      with es Inr show ?thesis by (simp add: accounted_def)
    qed
  qed
qed

lemma gather_loop_accounted:
  "m \<in> set ms \<Longrightarrow> accounted Write Desc (gather_loop Write Desc ms) m"
proof (induction ms rule: rev_induct)
  case Nil
  then show ?case by simp
next
  case (snoc x xs)
  show ?case
  proof (cases "m = x")
    case True
    from gather_step_accounts[where Write=Write and m=x and Desc=Desc and st="gather_loop Write Desc xs"] show ?thesis
      unfolding True gather_loop_snoc accounted_def .
  next
    case False
    with snoc have "accounted Write Desc (gather_loop Write Desc xs) m" by simp
    then show ?thesis unfolding gather_loop_snoc by (rule accounted_step)
  qed
qed

text \<open>A family of a given name exists exactly when a sample of that name was written as
  gauge or counter.\<close>

lemma gather_step_dom:
  "k \<in> fst ` set (dtoMetricFamilies (gather_step Write Desc st m)) \<longleftrightarrow>
   k \<in> fst ` set (dtoMetricFamilies st) \<or>
   (\<exists>d. Write m = Inr d \<and> Name (Desc m) = k \<and> written_type d \<noteq> None)"
proof (cases "Write m")
  case (Inl e)
  then show ?thesis by (simp add: gather_step_Inl)
next
  case (Inr d)
  show ?thesis
  proof (cases "map_of (dtoMetricFamilies st) (Name (Desc m))")
    case (Some f)
    then have "Name (Desc m) \<in> fst ` set (dtoMetricFamilies st)"
      by (metis domI dom_map_of_conv_image_fst)
    then show ?thesis using Inr Some
      by (auto simp: gather_step_append dom_update simp del: map_of_eq_Some_iff)
  next
    case None
    then have notin: "Name (Desc m) \<notin> fst ` set (dtoMetricFamilies st)"
      by (simp add: map_of_eq_None_iff)
    show ?thesis
    proof (cases "written_type d")
      case None': None
      show ?thesis using Inr None None' notin by (auto simp: gather_step_unknown)
    next
      case (Some t)
      show ?thesis using Inr None Some by (auto simp: gather_step_new dom_update)
    qed
  qed
qed

lemma gather_loop_dom:
  "k \<in> fst ` set (dtoMetricFamilies (gather_loop Write Desc ms)) \<longleftrightarrow>
   (\<exists>m\<in>set ms. \<exists>d. Write m = Inr d \<and> Name (Desc m) = k \<and> written_type d \<noteq> None)"
proof (induction ms rule: rev_induct)
  case Nil
  show ?case by (simp add: gather_loop_Nil gather_init_def)
next
  case (snoc m ms)
  show ?case unfolding gather_loop_snoc gather_step_dom snoc by auto
qed

lemma Gather_returns_total:
  "Gather_returns Write Desc ms
     (map snd (dtoMetricFamilies (gather_loop Write Desc ms)), errs (gather_loop Write Desc ms))"
  by (simp add: Gather_returns_def)

lemma Gather_returns_set:
  assumes "Gather_returns Write Desc ms (result, es)"
  shows "f \<in> set result \<longleftrightarrow>
         (\<exists>k. map_of (dtoMetricFamilies (gather_loop Write Desc ms)) k = Some f)"
proof -
  have d: "distinct (map fst (dtoMetricFamilies (gather_loop Write Desc ms)))"
    using gather_loop_inv[of Write Desc ms] by (simp add: gather_inv_def)
  from assms have "set result = set (map snd (dtoMetricFamilies (gather_loop Write Desc ms)))"
    unfolding Gather_returns_def by (metis fst_conv mset_eq_setD)
  then show ?thesis using d by force
qed

lemma Gather_returns_family_ok:
  assumes "Gather_returns Write Desc ms (result, es)" and "f \<in> set result"
  shows "\<exists>k. family_ok Write Desc ms k f"
  using assms gather_loop_inv[of Write Desc ms]
  unfolding Gather_returns_set[OF assms(1)] gather_inv_def by blast

lemma Gather_returns_count:
  assumes "Gather_returns Write Desc ms (result, es)"
  shows "length es + sum_list (map (\<lambda>f. length (mf_Metric f)) result) = length ms"
proof -
  let ?al = "dtoMetricFamilies (gather_loop Write Desc ms)"
  from assms have "mset (map (\<lambda>f. length (mf_Metric f)) result) =
      mset (map (\<lambda>f. length (mf_Metric f)) (map snd ?al))"
    unfolding Gather_returns_def by (metis fst_conv mset_map)
  then have "sum_list (map (\<lambda>f. length (mf_Metric f)) result) =
      sum_list (map (\<lambda>f. length (mf_Metric f)) (map snd ?al))"
    by (metis sum_mset_sum_list)
  also have "\<dots> = family_samples ?al"
    by (simp add: family_samples_def comp_def)
  finally show ?thesis
    using assms gather_loop_count[of Write Desc ms] by (simp add: Gather_returns_def)
qed

lemma Gather_returns_distinct:
  assumes "Gather_returns Write Desc ms (result, es)"
  shows "distinct (map mf_Name result)"
proof -
  let ?al = "dtoMetricFamilies (gather_loop Write Desc ms)"
  have inv: "gather_inv Write Desc ms (gather_loop Write Desc ms)"
    by (rule gather_loop_inv)
  then have d: "distinct (map fst ?al)" by (simp add: gather_inv_def)
  have nm: "mf_Name (snd kf) = Some (fst kf)" if "kf \<in> set ?al" for kf
  proof -
    from that have "map_of ?al (fst kf) = Some (snd kf)" using d by simp
    with inv show ?thesis unfolding gather_inv_def family_ok_def by blast
  qed
  have "map mf_Name (map snd ?al) = map (\<lambda>kf. Some (fst kf)) ?al"
    using nm by (simp add: comp_def)
  moreover have "distinct (map (\<lambda>kf. Some (fst kf)) ?al)"
    using d by (simp add: distinct_map inj_on_def)
  ultimately have "distinct (map mf_Name (map snd ?al))" by metis
  moreover from assms have "mset (map mf_Name result) = mset (map mf_Name (map snd ?al))"
    unfolding Gather_returns_def by (metis fst_conv mset_map)
  ultimately show ?thesis by (metis mset_eq_imp_distinct_iff)
qed

lemma Gather_returns_accounted:
  assumes "Gather_returns Write Desc ms (result, es)" and "m \<in> set ms"
  shows "case Write m of
      Inl e \<Rightarrow> e \<in> set es
    | Inr d \<Rightarrow>
        (\<exists>f\<in>set result. mf_Name f = Some (Name (Desc m)) \<and> d \<in> set (mf_Metric f)) \<or>
        (written_type d = None \<and> DontKnowHowToHandle d \<in> set es)"
proof -
  have es: "es = errs (gather_loop Write Desc ms)"
    using assms(1) by (simp add: Gather_returns_def)
  have inv: "gather_inv Write Desc ms (gather_loop Write Desc ms)"
    by (rule gather_loop_inv)
  have acc: "accounted Write Desc (gather_loop Write Desc ms) m"
    using assms(2) by (rule gather_loop_accounted)
  show ?thesis
  proof (cases "Write m")
    case (Inl e)
    with acc es show ?thesis by (simp add: accounted_def)
  next
    case (Inr d)
    with acc consider
      f where "map_of (dtoMetricFamilies (gather_loop Write Desc ms)) (Name (Desc m)) = Some f"
        "d \<in> set (mf_Metric f)"
      | "written_type d = None" "DontKnowHowToHandle d \<in> set es"
      unfolding accounted_def es by auto
    then show ?thesis
    proof cases
      case 1
      from 1(1) inv have "mf_Name f = Some (Name (Desc m))"
        unfolding gather_inv_def family_ok_def by blast
      moreover from 1(1) have "f \<in> set result"
        unfolding Gather_returns_set[OF assms(1)] by blast
      ultimately show ?thesis using 1(2) Inr by auto
    next
      case 2
      with Inr show ?thesis by simp
    qed
  qed
qed

text \<open>A sample drained while a family of its name exists stays in that family to the end.\<close>

lemma gather_loop_append:
  "gather_loop Write Desc (xs @ ys) = foldl (gather_step Write Desc) (gather_loop Write Desc xs) ys"
  by (simp add: gather_loop_def)

lemma foldl_family_grows:
  "map_of (dtoMetricFamilies st) k = Some f \<Longrightarrow>
   \<exists>f'. map_of (dtoMetricFamilies (foldl (gather_step Write Desc) st ms)) k = Some f' \<and>
        set (mf_Metric f) \<subseteq> set (mf_Metric f')"
proof (induction ms arbitrary: st f)
  case Nil
  then show ?case by simp
next
  case (Cons m ms)
  from gather_step_family_grows[OF Cons.prems, where Write=Write and Desc=Desc and m=m]
  obtain f1 where f1: "map_of (dtoMetricFamilies (gather_step Write Desc st m)) k = Some f1"
    "set (mf_Metric f) \<subseteq> set (mf_Metric f1)"
    by blast
  from Cons.IH[OF f1(1)] obtain f' where
    "map_of (dtoMetricFamilies (foldl (gather_step Write Desc) (gather_step Write Desc st m) ms)) k =
       Some f'" "set (mf_Metric f1) \<subseteq> set (mf_Metric f')"
    by blast
  with f1(2) show ?case by auto
qed

lemma gather_loop_later_sample:
  assumes "Write m = Inr d"
    and "\<exists>m'\<in>set pre. \<exists>d'. Write m' = Inr d' \<and> Name (Desc m') = Name (Desc m) \<and>
           written_type d' \<noteq> None"
  shows "\<exists>f. map_of (dtoMetricFamilies (gather_loop Write Desc pre)) (Name (Desc m)) = Some f \<and>
     gather_loop Write Desc (pre @ [m]) =
       (gather_loop Write Desc pre)
         \<lparr>dtoMetricFamilies :=
            AList.update (Name (Desc m)) (f\<lparr>mf_Metric := mf_Metric f @ [d]\<rparr>)
              (dtoMetricFamilies (gather_loop Write Desc pre))\<rparr>"
proof -
  from assms(2) have "Name (Desc m) \<in> fst ` set (dtoMetricFamilies (gather_loop Write Desc pre))"
    unfolding gather_loop_dom by auto
  then obtain f where
    f: "map_of (dtoMetricFamilies (gather_loop Write Desc pre)) (Name (Desc m)) = Some f"
    by (metis domD dom_map_of_conv_image_fst)
  then show ?thesis
    using assms(1) by (simp add: gather_loop_snoc gather_step_append)
qed

lemma gather_loop_later_sample_kept:
  assumes "Write m = Inr d"
    and "\<exists>m'\<in>set pre. \<exists>d'. Write m' = Inr d' \<and> Name (Desc m') = Name (Desc m) \<and>
           written_type d' \<noteq> None"
  shows "\<exists>f. map_of (dtoMetricFamilies (gather_loop Write Desc (pre @ m # post)))
               (Name (Desc m)) = Some f \<and> d \<in> set (mf_Metric f)"
proof -
  from gather_loop_later_sample[OF assms] obtain f where
    step: "gather_loop Write Desc (pre @ [m]) =
       (gather_loop Write Desc pre)
         \<lparr>dtoMetricFamilies :=
            AList.update (Name (Desc m)) (f\<lparr>mf_Metric := mf_Metric f @ [d]\<rparr>)
              (dtoMetricFamilies (gather_loop Write Desc pre))\<rparr>"
    by blast
  have "map_of (dtoMetricFamilies (gather_loop Write Desc (pre @ [m]))) (Name (Desc m)) =
      Some (f\<lparr>mf_Metric := mf_Metric f @ [d]\<rparr>)"
    unfolding step by (simp add: update_conv')
  from foldl_family_grows[OF this, where Write=Write and Desc=Desc and ms=post]
  obtain f' where "map_of (dtoMetricFamilies
        (foldl (gather_step Write Desc) (gather_loop Write Desc (pre @ [m])) post))
        (Name (Desc m)) = Some f'" "d \<in> set (mf_Metric f')"
    by auto
  moreover have "pre @ m # post = (pre @ [m]) @ post" by simp
  ultimately show ?thesis
    unfolding \<open>pre @ m # post = (pre @ [m]) @ post\<close> gather_loop_append by blast
qed

section \<open>What \<^verbatim>\<open>Gather\<close> returns\<close>

text \<open>
  Claim C1, as amended. Whatever \<^verbatim>\<open>Gather\<close> returns after draining the samples \<open>ms\<close>:
  \<^item> every returned family was opened by a sample of \<open>ms\<close> whose write succeeded; that
    sample's written form is the first of the family, the family bears its name and its
    help text, and the family type is the type selected for it (gauge or counter); every
    further sample of the family is the written form of a sample of the same name;
  \<^item> every sample written as gauge or counter is in the returned family of its name;
  \<^item> a sample whose write succeeded and which is drained after a sample of its name was
    written as gauge or counter finds the family of its name and is appended to it as its
    last sample, whatever its own written form and help text: nothing is compared, no
    error is recorded, and it is in the returned family of its name.
\<close>

theorem Gather_family_follows_opening_sample:
  assumes "Gather_returns Write Desc ms (result, es)"
  shows "(\<forall>f\<in>set result. \<exists>m\<in>set ms. \<exists>d ds.
            Write m = Inr d \<and> mf_Metric f = d # ds \<and>
            mf_Name f = Some (Name (Desc m)) \<and> mf_Help f = Some (Help (Desc m)) \<and>
            mf_Type f = written_type d \<and> written_type d \<noteq> None \<and>
            (\<forall>d'\<in>set ds. \<exists>m'\<in>set ms. Write m' = Inr d' \<and> Name (Desc m') = Name (Desc m))) \<and>
         (\<forall>m\<in>set ms. \<forall>d. Write m = Inr d \<longrightarrow> written_type d \<noteq> None \<longrightarrow>
            (\<exists>f\<in>set result. mf_Name f = Some (Name (Desc m)) \<and> d \<in> set (mf_Metric f))) \<and>
         (\<forall>pre m post d.
            ms = pre @ m # post \<and> Write m = Inr d \<and>
            (\<exists>m'\<in>set pre. \<exists>d'. Write m' = Inr d' \<and> Name (Desc m') = Name (Desc m) \<and>
               written_type d' \<noteq> None) \<longrightarrow>
            (\<exists>f. map_of (dtoMetricFamilies (gather_loop Write Desc pre)) (Name (Desc m)) = Some f \<and>
               gather_loop Write Desc (pre @ [m]) =
                 (gather_loop Write Desc pre)
                   \<lparr>dtoMetricFamilies :=
                      AList.update (Name (Desc m)) (f\<lparr>mf_Metric := mf_Metric f @ [d]\<rparr>)
                        (dtoMetricFamilies (gather_loop Write Desc pre))\<rparr>) \<and>
            (\<exists>f\<in>set result. mf_Name f = Some (Name (Desc m)) \<and> d \<in> set (mf_Metric f)))"
proof (intro conjI ballI allI impI)
  fix f assume "f \<in> set result"
  with assms obtain k where "family_ok Write Desc ms k f"
    using Gather_returns_family_ok by blast
  then show "\<exists>m\<in>set ms. \<exists>d ds.
            Write m = Inr d \<and> mf_Metric f = d # ds \<and>
            mf_Name f = Some (Name (Desc m)) \<and> mf_Help f = Some (Help (Desc m)) \<and>
            mf_Type f = written_type d \<and> written_type d \<noteq> None \<and>
            (\<forall>d'\<in>set ds. \<exists>m'\<in>set ms. Write m' = Inr d' \<and> Name (Desc m') = Name (Desc m))"
    unfolding family_ok_def by (metis option.distinct(1))
next
  fix m d assume "m \<in> set ms" "Write m = Inr d" "written_type d \<noteq> None"
  with Gather_returns_accounted[OF assms, of m]
  show "\<exists>f\<in>set result. mf_Name f = Some (Name (Desc m)) \<and> d \<in> set (mf_Metric f)"
    by simp
next
  fix pre m post d
  assume a: "ms = pre @ m # post \<and> Write m = Inr d \<and>
            (\<exists>m'\<in>set pre. \<exists>d'. Write m' = Inr d' \<and> Name (Desc m') = Name (Desc m) \<and>
               written_type d' \<noteq> None)"
  then have w: "Write m = Inr d"
    and e: "\<exists>m'\<in>set pre. \<exists>d'. Write m' = Inr d' \<and> Name (Desc m') = Name (Desc m) \<and>
               written_type d' \<noteq> None"
    and ms: "ms = pre @ m # post"
    by blast+
  show "\<exists>f. map_of (dtoMetricFamilies (gather_loop Write Desc pre)) (Name (Desc m)) = Some f \<and>
               gather_loop Write Desc (pre @ [m]) =
                 (gather_loop Write Desc pre)
                   \<lparr>dtoMetricFamilies :=
                      AList.update (Name (Desc m)) (f\<lparr>mf_Metric := mf_Metric f @ [d]\<rparr>)
                        (dtoMetricFamilies (gather_loop Write Desc pre))\<rparr>"
    using w e by (rule gather_loop_later_sample)
  from gather_loop_later_sample_kept[OF w e, of post] obtain f where
    f: "map_of (dtoMetricFamilies (gather_loop Write Desc ms)) (Name (Desc m)) = Some f"
      "d \<in> set (mf_Metric f)"
    unfolding ms by blast
  have "f \<in> set result"
    unfolding Gather_returns_set[OF assms] using f(1) by blast
  moreover have "mf_Name f = Some (Name (Desc m))"
    using f(1) gather_loop_inv[of Write Desc ms] unfolding gather_inv_def family_ok_def by blast
  ultimately show "\<exists>f\<in>set result. mf_Name f = Some (Name (Desc m)) \<and> d \<in> set (mf_Metric f)"
    using f(2) by blast
qed

text \<open>
  The amended claim C1 at a gauge sample named \<open>m\<close> followed by a sample of the same name
  that is neither gauge nor counter and has another help text: the family is opened by the
  first and the second is appended to it.
\<close>

theorem Gather_family_follows_opening_sample_witness:
  "Gather_returns fst snd
     ([(Inr (dto_Metric_empty\<lparr>Gauge := Some 1\<rparr>),
        \<lparr>Name = ''m'', Help = ''first'', ValueType = GaugeValue, ConstLabels = [],
         Labels = [], LogContext = ''''\<rparr>)] @
      (Inr (dto_Metric_empty\<lparr>Untyped := Some 2\<rparr>),
       \<lparr>Name = ''m'', Help = ''second'', ValueType = UntypedValue, ConstLabels = [],
        Labels = [], LogContext = ''''\<rparr>) # [])
     ([\<lparr>mf_Name = Some ''m'', mf_Help = Some ''first'', mf_Type = Some GAUGE,
        mf_Metric = [dto_Metric_empty\<lparr>Gauge := Some 1\<rparr>,
                     dto_Metric_empty\<lparr>Untyped := Some 2\<rparr>]\<rparr>], []) \<and>
   written_type (dto_Metric_empty\<lparr>Gauge := Some 1\<rparr>) = Some GAUGE \<and>
   gather_loop fst snd
     ([(Inr (dto_Metric_empty\<lparr>Gauge := Some 1\<rparr>),
        \<lparr>Name = ''m'', Help = ''first'', ValueType = GaugeValue, ConstLabels = [],
         Labels = [], LogContext = ''''\<rparr>)] @
      [(Inr (dto_Metric_empty\<lparr>Untyped := Some 2\<rparr>),
       \<lparr>Name = ''m'', Help = ''second'', ValueType = UntypedValue, ConstLabels = [],
        Labels = [], LogContext = ''''\<rparr>)]) =
     \<lparr>dtoMetricFamilies =
        [(''m'', \<lparr>mf_Name = Some ''m'', mf_Help = Some ''first'', mf_Type = Some GAUGE,
           mf_Metric = [dto_Metric_empty\<lparr>Gauge := Some 1\<rparr>,
                        dto_Metric_empty\<lparr>Untyped := Some 2\<rparr>]\<rparr>)],
      errs = []\<rparr>"
proof -
  let ?g = "(Inr (dto_Metric_empty\<lparr>Gauge := Some 1\<rparr>),
        \<lparr>Name = ''m'', Help = ''first'', ValueType = GaugeValue, ConstLabels = [],
         Labels = [], LogContext = ''''\<rparr>) :: (error + dto_Metric) \<times> MetricDesc"
  let ?u = "(Inr (dto_Metric_empty\<lparr>Untyped := Some 2\<rparr>),
       \<lparr>Name = ''m'', Help = ''second'', ValueType = UntypedValue, ConstLabels = [],
        Labels = [], LogContext = ''''\<rparr>) :: (error + dto_Metric) \<times> MetricDesc"
  let ?fam = "\<lparr>mf_Name = Some ''m'', mf_Help = Some ''first'', mf_Type = Some GAUGE,
        mf_Metric = [dto_Metric_empty\<lparr>Gauge := Some 1\<rparr>,
                     dto_Metric_empty\<lparr>Untyped := Some 2\<rparr>]\<rparr>"
  have h: "Gather_returns fst snd ([?g] @ ?u # []) ([?fam], [])"
    by (simp add: Gather_returns_def gather_loop_def gather_step_def gather_init_def
          dto_Metric_empty_def)
  have wt: "written_type (dto_Metric_empty\<lparr>Gauge := Some 1\<rparr>) = Some GAUGE"
    by (simp add: written_type_def dto_Metric_empty_def)
  have pre: "gather_loop fst snd [?g] =
      \<lparr>dtoMetricFamilies =
         [(''m'', \<lparr>mf_Name = Some ''m'', mf_Help = Some ''first'', mf_Type = Some GAUGE,
            mf_Metric = [dto_Metric_empty\<lparr>Gauge := Some 1\<rparr>]\<rparr>)],
       errs = []\<rparr>"
    by (simp add: gather_loop_def gather_step_def gather_init_def dto_Metric_empty_def)
  have cond: "[?g] @ ?u # [] = [?g] @ ?u # [] \<and>
      fst ?u = Inr (dto_Metric_empty\<lparr>Untyped := Some 2\<rparr>) \<and>
      (\<exists>m'\<in>set [?g]. \<exists>d'. fst m' = Inr d' \<and> Name (snd m') = Name (snd ?u) \<and>
         written_type d' \<noteq> None)"
    using wt by simp
  note t = Gather_family_follows_opening_sample[OF h]
  from t have "\<forall>pre m post d.
            [?g] @ ?u # [] = pre @ m # post \<and> fst m = Inr d \<and>
            (\<exists>m'\<in>set pre. \<exists>d'. fst m' = Inr d' \<and> Name (snd m') = Name (snd m) \<and>
               written_type d' \<noteq> None) \<longrightarrow>
            (\<exists>f. map_of (dtoMetricFamilies (gather_loop fst snd pre)) (Name (snd m)) = Some f \<and>
               gather_loop fst snd (pre @ [m]) =
                 (gather_loop fst snd pre)
                   \<lparr>dtoMetricFamilies :=
                      AList.update (Name (snd m)) (f\<lparr>mf_Metric := mf_Metric f @ [d]\<rparr>)
                        (dtoMetricFamilies (gather_loop fst snd pre))\<rparr>) \<and>
            (\<exists>f\<in>set [?fam]. mf_Name f = Some (Name (snd m)) \<and> d \<in> set (mf_Metric f))"
    by (elim conjE)
  from this[rule_format, OF cond] obtain f where
    "map_of (dtoMetricFamilies (gather_loop fst snd [?g])) (Name (snd ?u)) = Some f"
    "gather_loop fst snd ([?g] @ [?u]) =
       (gather_loop fst snd [?g])
         \<lparr>dtoMetricFamilies :=
            AList.update (Name (snd ?u))
              (f\<lparr>mf_Metric := mf_Metric f @ [dto_Metric_empty\<lparr>Untyped := Some 2\<rparr>]\<rparr>)
              (dtoMetricFamilies (gather_loop fst snd [?g]))\<rparr>"
    by blast
  then have "gather_loop fst snd ([?g] @ [?u]) =
      \<lparr>dtoMetricFamilies = [(''m'', ?fam)], errs = []\<rparr>"
    unfolding pre by auto
  with h wt show ?thesis by blast
qed

text \<open>
  Claim C1 as stated fails: no type consistency is asserted. A gauge sample and then a
  counter sample of the same name \<open>m\<close> with another help text end up in one family of type
  \<open>GAUGE\<close> carrying the help text of the first, and no error is reported.
\<close>

theorem Gather_mixed_types_counterexample:
  "Gather_returns fst snd
     [(Inr (dto_Metric_empty\<lparr>Gauge := Some 1\<rparr>),
       \<lparr>Name = ''m'', Help = ''first'', ValueType = GaugeValue, ConstLabels = [],
        Labels = [], LogContext = ''''\<rparr>),
      (Inr (dto_Metric_empty\<lparr>Counter := Some 2\<rparr>),
       \<lparr>Name = ''m'', Help = ''second'', ValueType = CounterValue, ConstLabels = [],
        Labels = [], LogContext = ''''\<rparr>)]
     ([\<lparr>mf_Name = Some ''m'', mf_Help = Some ''first'', mf_Type = Some GAUGE,
        mf_Metric = [dto_Metric_empty\<lparr>Gauge := Some 1\<rparr>,
                     dto_Metric_empty\<lparr>Counter := Some 2\<rparr>]\<rparr>], []) \<and>
   \<not> list_all family_one_type
     [\<lparr>mf_Name = Some ''m'', mf_Help = Some ''first'', mf_Type = Some GAUGE,
        mf_Metric = [dto_Metric_empty\<lparr>Gauge := Some 1\<rparr>,
                     dto_Metric_empty\<lparr>Counter := Some 2\<rparr>]\<rparr>]"
  by (simp add: Gather_returns_def gather_loop_def gather_step_def gather_init_def
        dto_Metric_empty_def family_one_type_def written_type_def)



text \<open>
  Claim C10, as amended. In every family list \<^verbatim>\<open>Gather\<close> returns the family names are
  pairwise distinct, every family has at least one sample and type \<open>GAUGE\<close> or \<open>COUNTER\<close>, and
  every drained sample accounts for exactly one entry of the error list or of a family. A
  sample whose write fails adds its error and leaves the families as they are. A sample
  written as neither gauge nor counter adds an error and leaves the families as they are
  when no earlier sample of its name was written as gauge or counter, that is when no
  family of its name exists yet.
\<close>

theorem Gather_families_well_formed:
  assumes "Gather_returns Write Desc ms (result, es)"
  shows "distinct (map mf_Name result) \<and>
     (\<forall>f\<in>set result. mf_Metric f \<noteq> [] \<and> (mf_Type f = Some GAUGE \<or> mf_Type f = Some COUNTER)) \<and>
     length es + sum_list (map (\<lambda>f. length (mf_Metric f)) result) = length ms \<and>
     (\<forall>pre m post. ms = pre @ m # post \<longrightarrow>
        (\<forall>e. Write m = Inl e \<longrightarrow>
           gather_loop Write Desc (pre @ [m]) =
             (gather_loop Write Desc pre)\<lparr>errs := errs (gather_loop Write Desc pre) @ [e]\<rparr>) \<and>
        (\<forall>d. Write m = Inr d \<and> written_type d = None \<and>
             (\<forall>m'\<in>set pre. \<forall>d'. Write m' = Inr d' \<and> Name (Desc m') = Name (Desc m) \<longrightarrow>
                 written_type d' = None) \<longrightarrow>
           gather_loop Write Desc (pre @ [m]) =
             (gather_loop Write Desc pre)
               \<lparr>errs := errs (gather_loop Write Desc pre) @ [DontKnowHowToHandle d]\<rparr>))"
proof (intro conjI ballI allI impI)
  show "distinct (map mf_Name result)"
    using assms by (rule Gather_returns_distinct)
next
  fix f assume "f \<in> set result"
  with assms obtain k where ok: "family_ok Write Desc ms k f"
    using Gather_returns_family_ok by blast
  then show "mf_Metric f \<noteq> []" unfolding family_ok_def by auto
  from ok show "mf_Type f = Some GAUGE \<or> mf_Type f = Some COUNTER"
    unfolding family_ok_def by blast
next
  show "length es + sum_list (map (\<lambda>f. length (mf_Metric f)) result) = length ms"
    using assms by (rule Gather_returns_count)
next
  fix pre m post e
  assume "Write m = Inl e"
  then show "gather_loop Write Desc (pre @ [m]) =
             (gather_loop Write Desc pre)\<lparr>errs := errs (gather_loop Write Desc pre) @ [e]\<rparr>"
    by (simp add: gather_loop_snoc gather_step_Inl)
next
  fix pre m post d
  assume a: "Write m = Inr d \<and> written_type d = None \<and>
             (\<forall>m'\<in>set pre. \<forall>d'. Write m' = Inr d' \<and> Name (Desc m') = Name (Desc m) \<longrightarrow>
                 written_type d' = None)"
  then have "Name (Desc m) \<notin> fst ` set (dtoMetricFamilies (gather_loop Write Desc pre))"
    unfolding gather_loop_dom by auto
  then have "map_of (dtoMetricFamilies (gather_loop Write Desc pre)) (Name (Desc m)) = None"
    by (simp add: map_of_eq_None_iff)
  with a show "gather_loop Write Desc (pre @ [m]) =
             (gather_loop Write Desc pre)
               \<lparr>errs := errs (gather_loop Write Desc pre) @ [DontKnowHowToHandle d]\<rparr>"
    by (simp add: gather_loop_snoc gather_step_unknown)
qed

text \<open>
  The amended claim C10 at three samples: a failed write, then a sample named \<open>b\<close> that is
  neither gauge nor counter, then a gauge named \<open>up\<close>.
\<close>

theorem Gather_families_well_formed_witness:
  "Gather_returns fst snd
     ([(Inl (DriverError ''connection refused''),
        \<lparr>Name = ''a'', Help = ''help a'', ValueType = GaugeValue, ConstLabels = [],
         Labels = [], LogContext = ''''\<rparr>)] @
      (Inr (dto_Metric_empty\<lparr>Untyped := Some 3\<rparr>),
       \<lparr>Name = ''b'', Help = ''help b'', ValueType = UntypedValue, ConstLabels = [],
        Labels = [], LogContext = ''''\<rparr>) #
      [(Inr (dto_Metric_empty\<lparr>Gauge := Some 1\<rparr>),
        \<lparr>Name = ''up'', Help = ''help up'', ValueType = GaugeValue, ConstLabels = [],
         Labels = [], LogContext = ''''\<rparr>)])
     ([\<lparr>mf_Name = Some ''up'', mf_Help = Some ''help up'', mf_Type = Some GAUGE,
        mf_Metric = [dto_Metric_empty\<lparr>Gauge := Some 1\<rparr>]\<rparr>],
      [DriverError ''connection refused'',
       DontKnowHowToHandle (dto_Metric_empty\<lparr>Untyped := Some 3\<rparr>)]) \<and>
   written_type (dto_Metric_empty\<lparr>Untyped := Some 3\<rparr>) = None \<and>
   distinct (map mf_Name
     [\<lparr>mf_Name = Some ''up'', mf_Help = Some ''help up'', mf_Type = Some GAUGE,
        mf_Metric = [dto_Metric_empty\<lparr>Gauge := Some 1\<rparr>]\<rparr>]) \<and>
   gather_loop fst snd
     ([(Inl (DriverError ''connection refused''),
        \<lparr>Name = ''a'', Help = ''help a'', ValueType = GaugeValue, ConstLabels = [],
         Labels = [], LogContext = ''''\<rparr>)] @
      [(Inr (dto_Metric_empty\<lparr>Untyped := Some 3\<rparr>),
       \<lparr>Name = ''b'', Help = ''help b'', ValueType = UntypedValue, ConstLabels = [],
        Labels = [], LogContext = ''''\<rparr>)]) =
     \<lparr>dtoMetricFamilies = [],
      errs = [DriverError ''connection refused'',
              DontKnowHowToHandle (dto_Metric_empty\<lparr>Untyped := Some 3\<rparr>)]\<rparr>"
proof -
  let ?x = "(Inl (DriverError ''connection refused''),
        \<lparr>Name = ''a'', Help = ''help a'', ValueType = GaugeValue, ConstLabels = [],
         Labels = [], LogContext = ''''\<rparr>) :: (error + dto_Metric) \<times> MetricDesc"
  let ?u = "(Inr (dto_Metric_empty\<lparr>Untyped := Some 3\<rparr>),
       \<lparr>Name = ''b'', Help = ''help b'', ValueType = UntypedValue, ConstLabels = [],
        Labels = [], LogContext = ''''\<rparr>) :: (error + dto_Metric) \<times> MetricDesc"
  let ?g = "(Inr (dto_Metric_empty\<lparr>Gauge := Some 1\<rparr>),
        \<lparr>Name = ''up'', Help = ''help up'', ValueType = GaugeValue, ConstLabels = [],
         Labels = [], LogContext = ''''\<rparr>) :: (error + dto_Metric) \<times> MetricDesc"
  let ?res = "[\<lparr>mf_Name = Some ''up'', mf_Help = Some ''help up'', mf_Type = Some GAUGE,
        mf_Metric = [dto_Metric_empty\<lparr>Gauge := Some 1\<rparr>]\<rparr>]"
  let ?es = "[DriverError ''connection refused'',
       DontKnowHowToHandle (dto_Metric_empty\<lparr>Untyped := Some 3\<rparr>)]"
  have h: "Gather_returns fst snd ([?x] @ ?u # [?g]) (?res, ?es)"
    by (simp add: Gather_returns_def gather_loop_def gather_step_def gather_init_def
          dto_Metric_empty_def)
  have wt: "written_type (dto_Metric_empty\<lparr>Untyped := Some 3\<rparr>) = None"
    by (simp add: written_type_def dto_Metric_empty_def)
  have pre: "gather_loop fst snd [?x] =
      \<lparr>dtoMetricFamilies = [], errs = [DriverError ''connection refused'']\<rparr>"
    by (simp add: gather_loop_def gather_step_def gather_init_def)
  note t = Gather_families_well_formed[OF h]
  from t have d: "distinct (map mf_Name ?res)" by (rule conjunct1)
  from t have "\<forall>d. fst ?u = Inr d \<and> written_type d = None \<and>
             (\<forall>m'\<in>set [?x]. \<forall>d'. fst m' = Inr d' \<and> Name (snd m') = Name (snd ?u) \<longrightarrow>
                 written_type d' = None) \<longrightarrow>
           gather_loop fst snd ([?x] @ [?u]) =
             (gather_loop fst snd [?x])
               \<lparr>errs := errs (gather_loop fst snd [?x]) @ [DontKnowHowToHandle d]\<rparr>"
    by blast
  then have "gather_loop fst snd ([?x] @ [?u]) =
             (gather_loop fst snd [?x])
               \<lparr>errs := errs (gather_loop fst snd [?x]) @
                  [DontKnowHowToHandle (dto_Metric_empty\<lparr>Untyped := Some 3\<rparr>)]\<rparr>"
    using wt by simp
  then have "gather_loop fst snd ([?x] @ [?u]) = \<lparr>dtoMetricFamilies = [], errs = ?es\<rparr>"
    unfolding pre by simp
  with h wt d show ?thesis by blast
qed

text \<open>
  Claim C10 as stated fails: the written form is only inspected when a family is created.
  A sample that is neither gauge nor counter, drained after a gauge sample of the same
  name, is appended to that family and contributes nothing to the error list.
\<close>

theorem Gather_unhandled_joins_family_counterexample:
  "Gather_returns fst snd
     [(Inr (dto_Metric_empty\<lparr>Gauge := Some 1\<rparr>),
       \<lparr>Name = ''m'', Help = ''help'', ValueType = GaugeValue, ConstLabels = [],
        Labels = [], LogContext = ''''\<rparr>),
      (Inr (dto_Metric_empty\<lparr>Untyped := Some 2\<rparr>),
       \<lparr>Name = ''m'', Help = ''help'', ValueType = UntypedValue, ConstLabels = [],
        Labels = [], LogContext = ''''\<rparr>)]
     ([\<lparr>mf_Name = Some ''m'', mf_Help = Some ''help'', mf_Type = Some GAUGE,
        mf_Metric = [dto_Metric_empty\<lparr>Gauge := Some 1\<rparr>,
                     dto_Metric_empty\<lparr>Untyped := Some 2\<rparr>]\<rparr>], []) \<and>
   written_type (dto_Metric_empty\<lparr>Untyped := Some 2\<rparr>) = None"
  by (simp add: Gather_returns_def gather_loop_def gather_step_def gather_init_def
        dto_Metric_empty_def written_type_def)

section \<open>Properties of the probe\<close>

lemma ping_open_cases:
  "ping_open t env = (r, t1, calls) \<Longrightarrow>
   (conn t \<noteq> None \<and> r = None \<and> t1 = t \<and> calls = []) \<or>
   (conn t = None \<and> (\<exists>e. OpenConnection env (logContext t) (dsn t) = Inl e \<and>
       t1 = t \<and> calls = [OpenConnection_call (dsn t) (Inl e)] \<and>
       r = (if Some e \<noteq> ctx_Err env 0 then Some e else None))) \<or>
   (conn t = None \<and> (\<exists>c. OpenConnection env (logContext t) (dsn t) = Inr c \<and>
       t1 = t\<lparr>conn := Some c\<rparr> \<and> calls = [OpenConnection_call (dsn t) (Inr c)] \<and> r = None))"
  by (auto simp: ping_open_def split: if_splits sum.splits)

lemma ping_open_target:
  "ping_open t env = (r, t1, calls) \<Longrightarrow> t1 = t\<lparr>conn := conn t1\<rparr>"
  by (auto simp: ping_open_def split: if_splits sum.splits)

lemma ping_target:
  "ping t env = (r, t1, calls) \<Longrightarrow> t1 = t\<lparr>conn := conn t1\<rparr>"
  by (auto simp: ping_def split: prod.splits option.splits dest: ping_open_target)

lemma ping_target_eq:
  "ping t env = (r, t1, calls) \<Longrightarrow> t1 = fst (snd (ping_open t env))"
  by (auto simp: ping_def split: prod.splits option.splits)

lemma target_after_conn_only:
  "target_after (target_Collect t env) = t\<lparr>conn := conn (target_after (target_Collect t env))\<rparr>"
  by (auto simp: target_Collect_def Let_def split: prod.splits dest: ping_target)

lemma target_after_fields:
  "logContext (target_after (target_Collect t env)) = logContext t"
  "upDesc (target_after (target_Collect t env)) = upDesc t"
  "scrapeDurationDesc (target_after (target_Collect t env)) = scrapeDurationDesc t"
  "collectors (target_after (target_Collect t env)) = collectors t"
  "dsn (target_after (target_Collect t env)) = dsn t"
  "name (target_after (target_Collect t env)) = name t"
  "constLabels (target_after (target_Collect t env)) = constLabels t"
  by (subst target_after_conn_only, simp)+

lemma target_Collect_ping:
  "target_after (target_Collect t env) = fst (snd (ping t env))"
  "driver_calls (target_Collect t env) = snd (snd (ping t env))"
  by (simp_all add: target_Collect_def Let_def split: prod.splits)

text \<open>The connection field once set.\<close>

lemma ping_conn_set:
  "conn t = Some c \<Longrightarrow>
   ping t env =
     (case ping_check t env of
        (Some err, calls2) \<Rightarrow> (Some err, t, calls2)
      | (None, calls2) \<Rightarrow> (ctx_Err env 3, t, calls2))"
  by (simp add: ping_def ping_open_def split: prod.splits option.splits)

lemma ping_check_conn_set:
  "conn t = Some c \<Longrightarrow>
   snd (ping_check t env) = (if ctx_Err env 1 = None then [PingDB_call c (PingDB env c)] else [])"
  by (auto simp: ping_check_def split: option.splits)

lemma Collect_conn_set:
  assumes "conn t = Some c"
  shows "target_after (target_Collect t env) = t"
    and "driver_calls (target_Collect t env) =
           (if ctx_Err env 1 = None then [PingDB_call c (PingDB env c)] else [])"
  using ping_check_conn_set[OF assms, of env]
  by (auto simp: target_Collect_ping ping_conn_set[OF assms] split: prod.splits option.splits)

lemma Collect_conn_open_ok:
  assumes "conn t = None" and "OpenConnection env (logContext t) (dsn t) = Inr c"
  shows "conn (target_after (target_Collect t env)) = Some c"
  using assms
  by (auto simp: target_Collect_ping ping_def ping_open_def split: prod.splits option.splits)

lemma Collect_conn_open_failed:
  assumes "conn t = None" and "OpenConnection env (logContext t) (dsn t) = Inl e"
  shows "target_after (target_Collect t env) = t"
    and "driver_calls (target_Collect t env) = [OpenConnection_call (dsn t) (Inl e)]"
  using assms
  by (auto simp: target_Collect_ping ping_def ping_open_def ping_check_def
      split: prod.splits option.splits)

lemma Collect_conn_None_calls:
  assumes "conn t = None"
  shows "\<exists>rest. driver_calls (target_Collect t env) =
           OpenConnection_call (dsn t) (OpenConnection env (logContext t) (dsn t)) # rest \<and>
           \<not> list_ex is_open_call rest"
  using assms
  by (auto simp: target_Collect_ping ping_def ping_open_def ping_check_def
      split: prod.splits option.splits sum.splits)

lemma scrapes_Cons:
  "fst (scrapes t (env # envs)) = fst (scrapes (target_after (target_Collect t env)) envs)"
  "snd (scrapes t (env # envs)) =
     driver_calls (target_Collect t env) @ snd (scrapes (target_after (target_Collect t env)) envs)"
  by (simp_all split: prod.splits)

lemma scrapes_conn_set:
  "conn t = Some c \<Longrightarrow>
   fst (scrapes t envs) = t \<and> list_all (\<lambda>call. \<exists>r. call = PingDB_call c r) (snd (scrapes t envs))"
proof (induction envs)
  case Nil
  then show ?case by simp
next
  case (Cons env envs)
  then show ?case
    by (simp add: scrapes_Cons Collect_conn_set del: scrapes.simps)
qed

lemma successful_open_is_open_call: "successful_open x \<Longrightarrow> is_open_call x"
  by (cases x rule: successful_open.cases) simp_all

lemma scrapes_conn_set_no_open:
  "conn t = Some c \<Longrightarrow> filter successful_open (snd (scrapes t envs)) = [] \<and>
     filter is_open_call (snd (scrapes t envs)) = []"
proof -
  assume "conn t = Some c"
  then have "list_all (\<lambda>call. \<exists>r. call = PingDB_call c r) (snd (scrapes t envs))"
    using scrapes_conn_set by blast
  then show ?thesis
    by (auto simp: list_all_iff filter_empty_conv)
qed

lemma scrapes_open_at_most_once:
  "length (filter successful_open (snd (scrapes t envs))) \<le> 1"
proof (induction envs arbitrary: t)
  case Nil
  show ?case by simp
next
  case (Cons env envs)
  show ?case
  proof (cases "conn t")
    case (Some c)
    then show ?thesis using scrapes_conn_set_no_open[of t c "env # envs"] by (simp del: scrapes.simps)
  next
    case None
    obtain rest where rest: "driver_calls (target_Collect t env) =
           OpenConnection_call (dsn t) (OpenConnection env (logContext t) (dsn t)) # rest"
           "\<not> list_ex is_open_call rest"
      using Collect_conn_None_calls[OF None] by blast
    have r0: "filter successful_open rest = []"
      using rest(2) by (auto simp: filter_empty_conv list_ex_iff dest: successful_open_is_open_call)
    show ?thesis
    proof (cases "OpenConnection env (logContext t) (dsn t)")
      case (Inl e)
      from Collect_conn_open_failed[OF None Inl] Cons[of t] show ?thesis
        by (simp add: scrapes_Cons del: scrapes.simps)
    next
      case (Inr c)
      from Collect_conn_open_ok[OF None Inr]
      have "filter successful_open (snd (scrapes (target_after (target_Collect t env)) envs)) = []"
        using scrapes_conn_set_no_open by blast
      then show ?thesis using rest(1) r0 Inr by (simp add: scrapes_Cons del: scrapes.simps)
    qed
  qed
qed

section \<open>The lifetime of the connection handle\<close>

lemma scrapes_conn_set_pings:
  "conn t = Some c \<Longrightarrow> list_all (is_ping_of c) (snd (scrapes t envs))"
  using scrapes_conn_set[of t c envs] by (auto simp: list_all_iff)

lemma example_target_fields:
  "conn example_target = None"
  "dsn example_target = ''sqlserver://db1''"
  "logContext example_target = ''job=mssql, target=db1''"
  "collectors example_target = [''c1'', ''c2'']"
  "Name (upDesc example_target) = upMetricName"
  "Name (scrapeDurationDesc example_target) = scrapeDurationName"
  by (simp_all add: example_target_def NewAutomaticMetricDesc_def)

lemma env_up_fields:
  "OpenConnection env_up lc d = Inr (DB 1)"
  "PingDB env_up c = None"
  "ctx_Err env_up k = None"
  "Collector_sends env_up = example_sends"
  by (simp_all add: env_up_def ctx_Err_def)

lemma example_ping_fails:
  "ping example_target env_ping_fails =
     (Some (DriverError ''server down''), example_target\<lparr>conn := Some (DB 1)\<rparr>,
      [OpenConnection_call ''sqlserver://db1'' (Inr (DB 1)),
       PingDB_call (DB 1) (Some (DriverError ''server down''))])"
  by (simp add: ping_def ping_open_def ping_check_def ctx_Err_def example_target_def
        env_ping_fails_def)

text \<open>
  Claim C3, as amended. For scrapes of a target that run one after another:
  \<^item> at most one call of \<^verbatim>\<open>OpenConnection\<close> succeeds;
  \<^item> a target whose handle is set is left as it is by a scrape, which makes no call of
    \<^verbatim>\<open>OpenConnection\<close> and only pings that handle (once, unless the context is already
    done when the ping is reached), and so does every sequence of further scrapes;
  \<^item> the handle is set by the first successful \<^verbatim>\<open>OpenConnection\<close>, whatever the ping that
    follows returns (a deadline expiry during the ping leaves it set), and all driver calls
    of the scrapes after it are pings of that handle;
  \<^item> when \<^verbatim>\<open>OpenConnection\<close> fails (by deadline expiry or otherwise) the handle stays
    unopened, the ping is not attempted, and the next scrape starts by calling
    \<^verbatim>\<open>OpenConnection\<close> again.
  Scrapes of one target that overlap are left out here.
\<close>

theorem connection_opened_at_most_once:
  "length (filter successful_open (snd (scrapes t envs))) \<le> 1 \<and>
   (conn t = Some c \<longrightarrow>
      target_after (target_Collect t env) = t \<and>
      driver_calls (target_Collect t env) =
        (if ctx_Err env 1 = None then [PingDB_call c (PingDB env c)] else []) \<and>
      fst (scrapes t envs) = t \<and>
      list_all (is_ping_of c) (snd (scrapes t envs)) \<and>
      filter is_open_call (snd (scrapes t envs)) = []) \<and>
   (conn t = None \<and> OpenConnection env (logContext t) (dsn t) = Inr c \<longrightarrow>
      conn (target_after (target_Collect t env)) = Some c \<and>
      fst (scrapes (target_after (target_Collect t env)) envs) =
        target_after (target_Collect t env) \<and>
      list_all (is_ping_of c) (snd (scrapes (target_after (target_Collect t env)) envs))) \<and>
   (conn t = None \<and> OpenConnection env (logContext t) (dsn t) = Inl e \<longrightarrow>
      target_after (target_Collect t env) = t \<and>
      driver_calls (target_Collect t env) = [OpenConnection_call (dsn t) (Inl e)] \<and>
      hd (driver_calls (target_Collect (target_after (target_Collect t env)) env')) =
        OpenConnection_call (dsn t) (OpenConnection env' (logContext t) (dsn t)))"
proof (intro conjI impI)
  show "length (filter successful_open (snd (scrapes t envs))) \<le> 1"
    by (rule scrapes_open_at_most_once)
next
  assume c: "conn t = Some c"
  show "target_after (target_Collect t env) = t"
    using c by (rule Collect_conn_set)
  show "driver_calls (target_Collect t env) =
        (if ctx_Err env 1 = None then [PingDB_call c (PingDB env c)] else [])"
    using c by (rule Collect_conn_set)
  show "fst (scrapes t envs) = t" using c scrapes_conn_set by blast
  show "list_all (is_ping_of c) (snd (scrapes t envs))"
    using c by (rule scrapes_conn_set_pings)
  show "filter is_open_call (snd (scrapes t envs)) = []"
    using c scrapes_conn_set_no_open by blast
next
  assume "conn t = None \<and> OpenConnection env (logContext t) (dsn t) = Inr c"
  then show c': "conn (target_after (target_Collect t env)) = Some c"
    using Collect_conn_open_ok by blast
  show "fst (scrapes (target_after (target_Collect t env)) envs) =
        target_after (target_Collect t env)"
    using c' scrapes_conn_set by blast
  show "list_all (is_ping_of c) (snd (scrapes (target_after (target_Collect t env)) envs))"
    using c' by (rule scrapes_conn_set_pings)
next
  assume a: "conn t = None \<and> OpenConnection env (logContext t) (dsn t) = Inl e"
  then show same: "target_after (target_Collect t env) = t"
    using Collect_conn_open_failed(1) by blast
  from a show "driver_calls (target_Collect t env) = [OpenConnection_call (dsn t) (Inl e)]"
    using Collect_conn_open_failed(2) by blast
  from a Collect_conn_None_calls[of t env']
  show "hd (driver_calls (target_Collect (target_after (target_Collect t env)) env')) =
        OpenConnection_call (dsn t) (OpenConnection env' (logContext t) (dsn t))"
    unfolding same by auto
qed

lemma env_deadline_in_ping_open:
  "OpenConnection env_deadline_in_ping lc d = Inr (DB 1)"
  "PingDB env_deadline_in_ping c = Some DeadlineExceeded"
  by (simp_all add: env_deadline_in_ping_def)

text \<open>
  The amended claim C3 at a target whose first open meets the deadline (the handle stays
  unopened and the next scrape opens it), at the same target when the open succeeds and
  the deadline expires during the ping (the handle is set and the scrapes after it only
  ping it), and at the target with its handle set.
\<close>

theorem connection_opened_at_most_once_witness:
  "conn example_target = None \<and>
   OpenConnection env_deadline_in_open (logContext example_target) (dsn example_target) =
     Inl DeadlineExceeded \<and>
   target_after (target_Collect example_target env_deadline_in_open) = example_target \<and>
   hd (driver_calls (target_Collect
        (target_after (target_Collect example_target env_deadline_in_open)) env_up)) =
     OpenConnection_call ''sqlserver://db1'' (Inr (DB 1)) \<and>
   length (filter successful_open
     (snd (scrapes example_target [env_deadline_in_open, env_up, env_up]))) \<le> 1 \<and>
   OpenConnection env_deadline_in_ping (logContext example_target) (dsn example_target) =
     Inr (DB 1) \<and>
   PingDB env_deadline_in_ping (DB 1) = Some DeadlineExceeded \<and>
   conn (target_after (target_Collect example_target env_deadline_in_ping)) = Some (DB 1) \<and>
   list_all (is_ping_of (DB 1))
     (snd (scrapes (target_after (target_Collect example_target env_deadline_in_ping))
        [env_up, env_ping_fails])) \<and>
   conn (example_target\<lparr>conn := Some (DB 1)\<rparr>) = Some (DB 1) \<and>
   driver_calls (target_Collect (example_target\<lparr>conn := Some (DB 1)\<rparr>) env_up) =
     [PingDB_call (DB 1) None]"
proof -
  have h: "conn example_target = None \<and>
     OpenConnection env_deadline_in_open (logContext example_target) (dsn example_target) =
       Inl DeadlineExceeded"
    by (simp add: example_target_def env_deadline_in_open_def)
  have k: "conn example_target = None \<and>
     OpenConnection env_deadline_in_ping (logContext example_target) (dsn example_target) =
       Inr (DB 1)"
    by (simp add: example_target_fields env_deadline_in_ping_open)
  have s: "conn (example_target\<lparr>conn := Some (DB 1)\<rparr>) = Some (DB 1)"
    by simp
  note t = connection_opened_at_most_once[of example_target
      "[env_deadline_in_open, env_up, env_up]" "DB 1" env_deadline_in_open DeadlineExceeded env_up]
  note u = connection_opened_at_most_once[of example_target
      "[env_up, env_ping_fails]" "DB 1" env_deadline_in_ping DeadlineExceeded env_up]
  note v = connection_opened_at_most_once[of "example_target\<lparr>conn := Some (DB 1)\<rparr>"
      "[]" "DB 1" env_up DeadlineExceeded env_up]
  from t have 1: "length (filter successful_open
     (snd (scrapes example_target [env_deadline_in_open, env_up, env_up]))) \<le> 1"
    by (rule conjunct1)
  from t h have 2: "target_after (target_Collect example_target env_deadline_in_open) =
      example_target \<and>
    hd (driver_calls (target_Collect
        (target_after (target_Collect example_target env_deadline_in_open)) env_up)) =
      OpenConnection_call (dsn example_target)
        (OpenConnection env_up (logContext example_target) (dsn example_target))"
    by blast
  from 2 have 3: "hd (driver_calls (target_Collect
        (target_after (target_Collect example_target env_deadline_in_open)) env_up)) =
     OpenConnection_call ''sqlserver://db1'' (Inr (DB 1))"
    unfolding example_target_fields env_up_fields by (rule conjunct2)
  from u k have 4: "conn (target_after (target_Collect example_target env_deadline_in_ping)) =
      Some (DB 1) \<and>
    list_all (is_ping_of (DB 1))
     (snd (scrapes (target_after (target_Collect example_target env_deadline_in_ping))
        [env_up, env_ping_fails]))"
    by blast
  from v s have "driver_calls (target_Collect (example_target\<lparr>conn := Some (DB 1)\<rparr>) env_up) =
      (if ctx_Err env_up 1 = None then [PingDB_call (DB 1) (PingDB env_up (DB 1))] else [])"
    by blast
  then have 5: "driver_calls (target_Collect (example_target\<lparr>conn := Some (DB 1)\<rparr>) env_up) =
      [PingDB_call (DB 1) None]"
    by (simp add: env_up_fields)
  have 6: "PingDB env_deadline_in_ping (DB 1) = Some DeadlineExceeded"
    by (rule env_deadline_in_ping_open)
  from 1 2 3 4 5 6 h k s show ?thesis by blast
qed

text \<open>
  Claim C3 as stated fails: when the open succeeds and the deadline expires during the
  ping, the probe fails with the error of the context but the handle is already set; the
  next scrape does not retry the open, it pings the retained handle.
\<close>

theorem deadline_in_ping_keeps_handle_counterexample:
  "conn example_target = None \<and>
   ping example_target env_deadline_in_ping =
     (Some DeadlineExceeded, example_target\<lparr>conn := Some (DB 1)\<rparr>,
      [OpenConnection_call ''sqlserver://db1'' (Inr (DB 1)),
       PingDB_call (DB 1) (Some DeadlineExceeded)]) \<and>
   conn (target_after (target_Collect example_target env_deadline_in_ping)) = Some (DB 1) \<and>
   driver_calls (target_Collect
       (target_after (target_Collect example_target env_deadline_in_ping)) env_up) =
     [PingDB_call (DB 1) None]"
  by (simp add: target_Collect_def ping_def ping_open_def ping_check_def ctx_Err_def
        example_target_def env_deadline_in_ping_def env_up_def)

section \<open>Probes that overlap\<close>

text \<open>A probe that runs alone, through its six steps, does what \<^verbatim>\<open>ping\<close> does: the steps
  are the same code.\<close>

lemma ping_step_alone:
  "ping_step env (ping_step env (ping_step env (ping_step env (ping_step env
     (ping_step env (At_122, t, calls)))))) =
   (Returned (fst (ping t env)), fst (snd (ping t env)), calls @ snd (snd (ping t env)))"
  by (auto simp: ping_def ping_open_def ping_check_def split: sum.splits option.splits)

lemma overlap_first_alone:
  "overlap env1 env2 [True, True, True, True, True, True] ((At_122, pc2), t, calls) =
   ((Returned (fst (ping t env1)), pc2), fst (snd (ping t env1)), calls @ snd (snd (ping t env1)))"
  by (auto simp: ping_def ping_open_def ping_check_def split: sum.splits option.splits)

text \<open>
  Claim C9 on two scrapes of one target that overlap. The target has no handle; both
  probes pass the test of line 122 before either has stored a handle, and both opens
  succeed. The first probe stores its handle \<open>DB 1\<close>; the second then assigns \<open>DB 2\<close> to the
  field that is no longer \<^verbatim>\<open>nil\<close>: the field is reassigned, two calls of \<^verbatim>\<open>OpenConnection\<close>
  have succeeded, and both probes go on to ping \<open>DB 2\<close>.
\<close>

theorem overlapping_probes_reassign_handle:
  "conn example_target = None \<and>
   overlap env_up env_up_again [True, False] ((At_122, At_122), example_target, []) =
     ((At_123, At_123), example_target, []) \<and>
   overlap env_up env_up_again [True, False, True, True]
       ((At_122, At_122), example_target, []) =
     ((At_135, At_123), example_target\<lparr>conn := Some (DB 1)\<rparr>,
      [OpenConnection_call ''sqlserver://db1'' (Inr (DB 1))]) \<and>
   overlap env_up env_up_again [True, False, True, True, False, False]
       ((At_122, At_122), example_target, []) =
     ((At_135, At_135), example_target\<lparr>conn := Some (DB 2)\<rparr>,
      [OpenConnection_call ''sqlserver://db1'' (Inr (DB 1)),
       OpenConnection_call ''sqlserver://db1'' (Inr (DB 2))]) \<and>
   overlap env_up env_up_again
       [True, False, True, True, False, False, True, True, True, False, False, False]
       ((At_122, At_122), example_target, []) =
     ((Returned None, Returned None), example_target\<lparr>conn := Some (DB 2)\<rparr>,
      [OpenConnection_call ''sqlserver://db1'' (Inr (DB 1)),
       OpenConnection_call ''sqlserver://db1'' (Inr (DB 2)),
       PingDB_call (DB 2) None, PingDB_call (DB 2) None])"
  by (simp add: example_target_def env_up_def env_up_again_def ctx_Err_def)

section \<open>Interleavings\<close>

lemma interleaving_Nil_iff: "interleaving [] ys \<longleftrightarrow> ys = []"
proof
  assume "interleaving [] ys"
  then show "ys = []" by (cases rule: interleaving.cases) simp_all
next
  assume "ys = []"
  then show "interleaving [] ys" by (simp add: interleaving_done)
qed

lemma concat_update_Cons:
  assumes "i < length xss" and "xss ! i = x # xs"
  shows "mset (concat xss) = add_mset x (mset (concat (xss[i := xs])))"
proof -
  have "xss = take i xss @ (x # xs) # drop (Suc i) xss"
    using assms by (metis id_take_nth_drop)
  moreover have "xss[i := xs] = take i xss @ xs # drop (Suc i) xss"
    using assms(1) by (simp add: upd_conv_take_nth_drop)
  ultimately show ?thesis
    by (metis (no_types, lifting) concat.simps(2) concat_append mset.simps(2) mset_append
        union_mset_add_mset_left union_mset_add_mset_right)
qed

lemma interleaving_mset: "interleaving xss ys \<Longrightarrow> mset ys = mset (concat xss)"
proof (induction rule: interleaving.induct)
  case (interleaving_done xss)
  then have "concat xss = []" by (induction xss) auto
  then show ?case by simp
next
  case (interleaving_step i xss x xs ys)
  then show ?case by (simp add: concat_update_Cons)
qed

lemma interleaving_count:
  "interleaving xss ys \<Longrightarrow> length (filter P ys) = length (filter P (concat xss))"
  by (metis interleaving_mset mset_filter size_mset)

lemma interleaving_empty_front: "interleaving xss ys \<Longrightarrow> interleaving ([] # xss) ys"
proof (induction rule: interleaving.induct)
  case (interleaving_done xss)
  then show ?case by (simp add: interleaving.interleaving_done)
next
  case (interleaving_step i xss x xs ys)
  have "interleaving (([] # xss)[Suc i := xs]) ys"
    using interleaving_step.IH by simp
  then show ?case
    using interleaving_step.hyps(1,2)
    by (intro interleaving.interleaving_step[where i="Suc i" and xs=xs]) simp_all
qed

lemma interleaving_front: "interleaving xss ys \<Longrightarrow> interleaving (xs # xss) (xs @ ys)"
proof (induction xs)
  case Nil
  then show ?case by (simp add: interleaving_empty_front)
next
  case (Cons x xs)
  then have "interleaving (((x # xs) # xss)[0 := xs]) (xs @ ys)" by simp
  then show ?case
    by (simp, intro interleaving_step[where i=0 and xs=xs]) simp_all
qed

lemma interleaving_concat: "interleaving xss (concat xss)"
  by (induction xss) (simp_all add: interleaving_done interleaving_front)

section \<open>What one call of Collect sends\<close>

lemma Collect_sends_iff:
  "Collect_sends t env tr \<longleftrightarrow>
     (\<exists>mid. interleaving
          (map (\<lambda>c. Collector_sends env c (conn (target_after (target_Collect t env))))
             (started (target_Collect t env))) mid \<and>
        tr = sent_before (target_Collect t env) @ mid @ sent_after (target_Collect t env))"
  by (simp add: Collect_sends_def)

lemma Collect_sends_total: "\<exists>tr. Collect_sends t env tr"
  unfolding Collect_sends_iff using interleaving_concat by blast

lemma ping_target_fields:
  assumes "ping t env = (r, t1, calls)"
  shows "logContext t1 = logContext t" "upDesc t1 = upDesc t"
    "scrapeDurationDesc t1 = scrapeDurationDesc t" "collectors t1 = collectors t"
proof -
  from assms have "t1 = t\<lparr>conn := conn t1\<rparr>"
    by (auto simp: ping_def ping_open_def split: prod.splits option.splits if_splits sum.splits)
  then have "logContext t1 = logContext (t\<lparr>conn := conn t1\<rparr>)"
    "upDesc t1 = upDesc (t\<lparr>conn := conn t1\<rparr>)"
    "scrapeDurationDesc t1 = scrapeDurationDesc (t\<lparr>conn := conn t1\<rparr>)"
    "collectors t1 = collectors (t\<lparr>conn := conn t1\<rparr>)"
    by simp_all
  then show "logContext t1 = logContext t" "upDesc t1 = upDesc t"
    "scrapeDurationDesc t1 = scrapeDurationDesc t" "collectors t1 = collectors t"
    by simp_all
qed

lemma Collect_failed:
  assumes "fst (ping t env) = Some e"
  shows "sent_before (target_Collect t env) =
           [NewInvalidMetric (logContext t) e, NewMetric (upDesc t) 0 []]"
    and "started (target_Collect t env) = []"
proof -
  obtain t1 calls where p: "ping t env = (Some e, t1, calls)"
    using assms by (metis prod.collapse)
  show "sent_before (target_Collect t env) =
           [NewInvalidMetric (logContext t) e, NewMetric (upDesc t) 0 []]"
    using ping_target_fields[OF p] by (simp add: target_Collect_def p boolToFloat64_def Let_def)
  show "started (target_Collect t env) = []"
    by (simp add: target_Collect_def p Let_def)
qed

lemma Collect_succeeded:
  assumes "fst (ping t env) = None"
  shows "sent_before (target_Collect t env) = [NewMetric (upDesc t) 1 []]"
    and "started (target_Collect t env) = collectors t"
proof -
  obtain t1 calls where p: "ping t env = (None, t1, calls)"
    using assms by (metis prod.collapse)
  show "sent_before (target_Collect t env) = [NewMetric (upDesc t) 1 []]"
    using ping_target_fields[OF p] by (simp add: target_Collect_def p boolToFloat64_def Let_def)
  show "started (target_Collect t env) = collectors t"
    using ping_target_fields[OF p] by (simp add: target_Collect_def p Let_def)
qed

lemma Collect_sent_after:
  "sent_after (target_Collect t env) =
     [NewMetric (scrapeDurationDesc t) (real_of_int (elapsed env) * (1 / 1000000000)) []]"
proof -
  obtain r t1 calls where p: "ping t env = (r, t1, calls)"
    by (metis prod.collapse)
  show ?thesis
    using ping_target_fields[OF p] by (simp add: target_Collect_def p Let_def)
qed

lemma Collect_sent_before:
  "sent_before (target_Collect t env) =
     (case fst (ping t env) of
        Some e \<Rightarrow> [NewInvalidMetric (logContext t) e]
      | None \<Rightarrow> []) @
     [NewMetric (upDesc t) (boolToFloat64 (fst (ping t env) = None)) []]"
  by (cases "fst (ping t env)") (simp_all add: Collect_failed Collect_succeeded boolToFloat64_def)

lemma Collect_sends_failed:
  assumes "fst (ping t env) = Some e"
  shows "Collect_sends t env tr \<longleftrightarrow>
     tr = [NewInvalidMetric (logContext t) e, NewMetric (upDesc t) 0 [],
           NewMetric (scrapeDurationDesc t) (real_of_int (elapsed env) * (1 / 1000000000)) []]"
  by (auto simp: Collect_sends_iff Collect_failed[OF assms] Collect_sent_after
        interleaving_Nil_iff)

lemma ctx_Err_mono:
  "ctx_Err env k = Some e \<Longrightarrow> k \<le> k' \<Longrightarrow> ctx_Err env k' = Some e"
  by (auto simp: ctx_Err_def split: option.splits if_splits)




lemma env_open_fails_fields:
  "OpenConnection env_open_fails lc d = Inl (DriverError ''unknown host'')"
  "ctx_Err env_open_fails k = None"
  "elapsed env_open_fails = 2000000"
  by (simp_all add: env_open_fails_def ctx_Err_def)

lemma example_ping_up: "fst (ping example_target env_up) = None"
  by (simp add: ping_def ping_open_def ping_check_def example_target_fields env_up_fields)


text \<open>
  Claim C8. Every sequence the channel receives from one call of \<^verbatim>\<open>target.Collect\<close> is made
  of the invalid-metric of a failed probe, if any, then the \<open>up\<close> sample, then an
  interleaving of the samples of the started collectors, then the
  \<open>scrape_duration_seconds\<close> sample: \<open>up\<close> precedes every collector sample and the scrape
  duration follows them all.
\<close>

theorem up_first_duration_last:
  assumes "Collect_sends t env tr"
  shows "\<exists>mid.
     tr = (case fst (ping t env) of
             Some e \<Rightarrow> [NewInvalidMetric (logContext t) e]
           | None \<Rightarrow> []) @
          NewMetric (upDesc t) (boolToFloat64 (fst (ping t env) = None)) [] #
          mid @
          [NewMetric (scrapeDurationDesc t) (real_of_int (elapsed env) * (1 / 1000000000)) []] \<and>
     interleaving
       (map (\<lambda>c. Collector_sends env c (conn (target_after (target_Collect t env))))
          (started (target_Collect t env))) mid \<and>
     mset mid = mset (collector_samples t env)"
proof -
  from assms obtain mid where
    mid: "interleaving
          (map (\<lambda>c. Collector_sends env c (conn (target_after (target_Collect t env))))
             (started (target_Collect t env))) mid"
    and tr: "tr = sent_before (target_Collect t env) @ mid @ sent_after (target_Collect t env)"
    unfolding Collect_sends_iff by blast
  from mid have "mset mid = mset (collector_samples t env)"
    unfolding collector_samples_def by (rule interleaving_mset)
  with mid tr show ?thesis
    unfolding Collect_sent_before Collect_sent_after by auto
qed

lemma example_sends_interleaved:
  "interleaving [example_sends ''c1'' db, example_sends ''c2'' db]
     [NewMetric example_desc 3 [''master''],
      NewInvalidMetric ''job=mssql, target=db1'' (DriverError ''query failed''),
      NewMetric example_desc 5 [''tempdb'']]"
  unfolding example_sends_def
  apply simp
  apply (rule interleaving_step[where i=0 and xs="[NewMetric example_desc 5 [''tempdb'']]"]; simp)
  apply (rule interleaving_step[where i=1 and xs="[]"]; simp)
  apply (rule interleaving_step[where i=0 and xs="[]"]; simp)
  apply (rule interleaving_done; simp)
  done

lemma example_Collect_up:
  "Collect_sends example_target env_up
     [NewMetric (upDesc example_target) 1 [],
      NewMetric example_desc 3 [''master''],
      NewInvalidMetric ''job=mssql, target=db1'' (DriverError ''query failed''),
      NewMetric example_desc 5 [''tempdb''],
      NewMetric (scrapeDurationDesc example_target)
        (real_of_int (elapsed env_up) * (1 / 1000000000)) []]"
  unfolding Collect_sends_iff
  using example_sends_interleaved
  by (simp add: Collect_succeeded[OF example_ping_up] Collect_sent_after example_target_fields
        env_up_fields)

text \<open>Claim C8 at a target with two collectors whose samples arrive interleaved.\<close>

theorem up_first_duration_last_witness:
  "Collect_sends example_target env_up
     [NewMetric (upDesc example_target) 1 [],
      NewMetric example_desc 3 [''master''],
      NewInvalidMetric ''job=mssql, target=db1'' (DriverError ''query failed''),
      NewMetric example_desc 5 [''tempdb''],
      NewMetric (scrapeDurationDesc example_target)
        (real_of_int (elapsed env_up) * (1 / 1000000000)) []] \<and>
   (\<exists>mid.
     [NewMetric (upDesc example_target) 1 [],
      NewMetric example_desc 3 [''master''],
      NewInvalidMetric ''job=mssql, target=db1'' (DriverError ''query failed''),
      NewMetric example_desc 5 [''tempdb''],
      NewMetric (scrapeDurationDesc example_target)
        (real_of_int (elapsed env_up) * (1 / 1000000000)) []] =
     NewMetric (upDesc example_target) 1 [] # mid @
       [NewMetric (scrapeDurationDesc example_target)
          (real_of_int (elapsed env_up) * (1 / 1000000000)) []] \<and>
     mset mid = mset (collector_samples example_target env_up))"
proof -
  from up_first_duration_last[OF example_Collect_up] obtain mid where
    "[NewMetric (upDesc example_target) 1 [],
      NewMetric example_desc 3 [''master''],
      NewInvalidMetric ''job=mssql, target=db1'' (DriverError ''query failed''),
      NewMetric example_desc 5 [''tempdb''],
      NewMetric (scrapeDurationDesc example_target)
        (real_of_int (elapsed env_up) * (1 / 1000000000)) []] =
     (case fst (ping example_target env_up) of
             Some e \<Rightarrow> [NewInvalidMetric (logContext example_target) e]
           | None \<Rightarrow> []) @
          NewMetric (upDesc example_target)
            (boolToFloat64 (fst (ping example_target env_up) = None)) [] #
          mid @
          [NewMetric (scrapeDurationDesc example_target)
             (real_of_int (elapsed env_up) * (1 / 1000000000)) []]"
    "mset mid = mset (collector_samples example_target env_up)"
    by blast
  then have "[NewMetric (upDesc example_target) 1 [],
      NewMetric example_desc 3 [''master''],
      NewInvalidMetric ''job=mssql, target=db1'' (DriverError ''query failed''),
      NewMetric example_desc 5 [''tempdb''],
      NewMetric (scrapeDurationDesc example_target)
        (real_of_int (elapsed env_up) * (1 / 1000000000)) []] =
     NewMetric (upDesc example_target) 1 [] # mid @
       [NewMetric (scrapeDurationDesc example_target)
          (real_of_int (elapsed env_up) * (1 / 1000000000)) []] \<and>
     mset mid = mset (collector_samples example_target env_up)"
    by (simp add: example_ping_up boolToFloat64_def)
  then show ?thesis using example_Collect_up by blast
qed

section \<open>Self-metrics of a target built by NewTarget\<close>

lemma NewTarget_fields:
  assumes "NewTarget Sprintf_target NewCollector lc n d ccs cl = Inr t"
  shows "conn t = None" "Name (upDesc t) = upMetricName"
    "Name (scrapeDurationDesc t) = scrapeDurationName"
    "ValueType (upDesc t) = GaugeValue" "Help (upDesc t) = upMetricHelp"
  using assms
  by (auto simp: NewTarget_def Let_def NewAutomaticMetricDesc_def split: sum.splits)

lemma scrapes_conn_only: "fst (scrapes t envs) = t\<lparr>conn := conn (fst (scrapes t envs))\<rparr>"
proof (induction envs arbitrary: t)
  case Nil
  show ?case by simp
next
  case (Cons env envs)
  let ?t1 = "target_after (target_Collect t env)"
  have "fst (scrapes ?t1 envs) = ?t1\<lparr>conn := conn (fst (scrapes ?t1 envs))\<rparr>"
    by (rule Cons.IH)
  also have "\<dots> = t\<lparr>conn := conn (fst (scrapes ?t1 envs))\<rparr>"
    by (subst target_after_conn_only) simp
  finally show ?case
    by (simp add: scrapes_Cons del: scrapes.simps)
qed

lemma scrapes_fields:
  "upDesc (fst (scrapes t envs)) = upDesc t"
  "scrapeDurationDesc (fst (scrapes t envs)) = scrapeDurationDesc t"
  "logContext (fst (scrapes t envs)) = logContext t"
  "collectors (fst (scrapes t envs)) = collectors t"
  by (subst scrapes_conn_only, simp)+

lemma names_differ: "upMetricName \<noteq> scrapeDurationName"
  by (simp add: upMetricName_def scrapeDurationName_def)

lemma Collect_count:
  assumes "Collect_sends t env tr"
  shows "length (filter (metric_named n) tr) =
     (if Name (upDesc t) = n then 1 else 0) +
     length (filter (metric_named n) (collector_samples t env)) +
     (if Name (scrapeDurationDesc t) = n then 1 else 0)"
proof -
  from assms obtain mid where
    mid: "interleaving
          (map (\<lambda>c. Collector_sends env c (conn (target_after (target_Collect t env))))
             (started (target_Collect t env))) mid"
    and tr: "tr = sent_before (target_Collect t env) @ mid @ sent_after (target_Collect t env)"
    unfolding Collect_sends_iff by blast
  have "length (filter (metric_named n) mid) =
        length (filter (metric_named n) (collector_samples t env))"
    unfolding collector_samples_def using mid by (rule interleaving_count)
  then show ?thesis
    unfolding tr Collect_sent_before Collect_sent_after
    by (simp split: option.splits)
qed

text \<open>
  Claim C5. For a target built by \<^verbatim>\<open>NewTarget\<close>, after any number of earlier scrapes and
  whatever the probe and the collectors do: \<^verbatim>\<open>target.Collect\<close> always completes its sends,
  and in every sequence the channel receives from it the target itself contributes
  exactly one sample named \<open>up\<close> and exactly one named \<open>scrape_duration_seconds\<close>: the
  number of samples of either name is one more than the number the collectors send under
  that name, hence exactly one when the collectors use neither name.
\<close>

theorem one_up_one_duration_per_Collect:
  assumes "NewTarget Sprintf_target NewCollector lc n d ccs cl = Inr t0"
  shows "(\<exists>tr. Collect_sends (fst (scrapes t0 envs)) env tr) \<and>
    (\<forall>tr. Collect_sends (fst (scrapes t0 envs)) env tr \<longrightarrow>
       length (filter (metric_named upMetricName) tr) =
         1 + length (filter (metric_named upMetricName)
                (collector_samples (fst (scrapes t0 envs)) env)) \<and>
       length (filter (metric_named scrapeDurationName) tr) =
         1 + length (filter (metric_named scrapeDurationName)
                (collector_samples (fst (scrapes t0 envs)) env)) \<and>
       (list_all (\<lambda>m. \<not> metric_named upMetricName m \<and> \<not> metric_named scrapeDurationName m)
          (collector_samples (fst (scrapes t0 envs)) env) \<longrightarrow>
        length (filter (metric_named upMetricName) tr) = 1 \<and>
        length (filter (metric_named scrapeDurationName) tr) = 1))"
proof (intro conjI allI impI)
  let ?t = "fst (scrapes t0 envs)"
  have up: "Name (upDesc ?t) = upMetricName"
    and du: "Name (scrapeDurationDesc ?t) = scrapeDurationName"
    using NewTarget_fields[OF assms] by (simp_all add: scrapes_fields)
  show "\<exists>tr. Collect_sends ?t env tr" by (rule Collect_sends_total)
  fix tr assume tr: "Collect_sends ?t env tr"
  show u1: "length (filter (metric_named upMetricName) tr) =
         1 + length (filter (metric_named upMetricName) (collector_samples ?t env))"
    using Collect_count[OF tr, of upMetricName] up du names_differ by simp
  show d1: "length (filter (metric_named scrapeDurationName) tr) =
         1 + length (filter (metric_named scrapeDurationName) (collector_samples ?t env))"
    using Collect_count[OF tr, of scrapeDurationName] up du names_differ by simp
  assume none: "list_all (\<lambda>m. \<not> metric_named upMetricName m \<and> \<not> metric_named scrapeDurationName m)
          (collector_samples ?t env)"
  then have "filter (metric_named upMetricName) (collector_samples ?t env) = []"
    "filter (metric_named scrapeDurationName) (collector_samples ?t env) = []"
    by (auto simp: list_all_iff filter_empty_conv)
  with u1 d1 show "length (filter (metric_named upMetricName) tr) = 1"
    "length (filter (metric_named scrapeDurationName) tr) = 1"
    by simp_all
qed

lemma example_NewTarget:
  "NewTarget (\<lambda>lc n. lc @ '', target='' @ n) (\<lambda>lc cc pairs. Inr cc) ''job=mssql'' ''db1''
     ''sqlserver://db1'' [''c1'', ''c2''] [(''job'', ''mssql''), (''instance'', ''db1'')] =
   Inr example_target"
  by (simp add: NewTarget_def Let_def example_target_def less_eq_char_def less_char_def
        list_le_def list_less_def)


lemma example_collector_samples_names:
  "list_all (\<lambda>m. \<not> metric_named upMetricName m \<and> \<not> metric_named scrapeDurationName m)
     (collector_samples example_target env_up)"
  by (simp add: collector_samples_def Collect_succeeded[OF example_ping_up] example_target_fields
        env_up_fields example_sends_def example_desc_def upMetricName_def scrapeDurationName_def)

lemma example_scrapes_open_fails:
  "fst (scrapes example_target [env_open_fails]) = example_target"
  using Collect_conn_open_failed(1)[of example_target env_open_fails "DriverError ''unknown host''"]
  by (simp add: example_target_fields env_open_fails_fields)

text \<open>Claim C5 at the example target, built by \<^verbatim>\<open>NewTarget\<close> and scraped once before with a
  failing open, when the database answers and the samples of the collectors arrive
  interleaved.\<close>

theorem one_up_one_duration_per_Collect_witness:
  "NewTarget (\<lambda>lc n. lc @ '', target='' @ n) (\<lambda>lc cc pairs. Inr cc) ''job=mssql'' ''db1''
     ''sqlserver://db1'' [''c1'', ''c2''] [(''job'', ''mssql''), (''instance'', ''db1'')] =
   Inr example_target \<and>
   Collect_sends (fst (scrapes example_target [env_open_fails])) env_up
     [NewMetric (upDesc example_target) 1 [],
      NewMetric example_desc 3 [''master''],
      NewInvalidMetric ''job=mssql, target=db1'' (DriverError ''query failed''),
      NewMetric example_desc 5 [''tempdb''],
      NewMetric (scrapeDurationDesc example_target)
        (real_of_int (elapsed env_up) * (1 / 1000000000)) []] \<and>
   length (filter (metric_named upMetricName)
     [NewMetric (upDesc example_target) 1 [],
      NewMetric example_desc 3 [''master''],
      NewInvalidMetric ''job=mssql, target=db1'' (DriverError ''query failed''),
      NewMetric example_desc 5 [''tempdb''],
      NewMetric (scrapeDurationDesc example_target)
        (real_of_int (elapsed env_up) * (1 / 1000000000)) []]) = 1 \<and>
   length (filter (metric_named scrapeDurationName)
     [NewMetric (upDesc example_target) 1 [],
      NewMetric example_desc 3 [''master''],
      NewInvalidMetric ''job=mssql, target=db1'' (DriverError ''query failed''),
      NewMetric example_desc 5 [''tempdb''],
      NewMetric (scrapeDurationDesc example_target)
        (real_of_int (elapsed env_up) * (1 / 1000000000)) []]) = 1"
proof -
  let ?tr = "[NewMetric (upDesc example_target) 1 [],
      NewMetric example_desc 3 [''master''],
      NewInvalidMetric ''job=mssql, target=db1'' (DriverError ''query failed''),
      NewMetric example_desc 5 [''tempdb''],
      NewMetric (scrapeDurationDesc example_target)
        (real_of_int (elapsed env_up) * (1 / 1000000000)) []]"
  have tr: "Collect_sends (fst (scrapes example_target [env_open_fails])) env_up ?tr"
    unfolding example_scrapes_open_fails by (rule example_Collect_up)
  have none: "list_all (\<lambda>m. \<not> metric_named upMetricName m \<and> \<not> metric_named scrapeDurationName m)
     (collector_samples (fst (scrapes example_target [env_open_fails])) env_up)"
    unfolding example_scrapes_open_fails by (rule example_collector_samples_names)
  from one_up_one_duration_per_Collect[OF example_NewTarget, of "[env_open_fails]" env_up]
  have "length (filter (metric_named upMetricName) ?tr) = 1 \<and>
        length (filter (metric_named scrapeDurationName) ?tr) = 1"
    using tr none by blast
  then show ?thesis using example_NewTarget tr by blast
qed

text \<open>
  Claim C7, as amended. The probe honours the deadline: once the context is found done
  before the ping, \<^verbatim>\<open>PingDB\<close> is not called; an open that fails with the error of the done
  context ends the probe with that error and without a ping; a ping that fails with the
  error of the done context ends the probe with that error; and whenever the context is
  done at the end of the probe, the probe fails and no collector is started. The channel
  sends do not consult the deadline: in that case the target still enqueues the
  invalid-metric of the failed probe, the \<open>up\<close> sample with value 0 and the
  \<open>scrape_duration_seconds\<close> sample, and nothing else.
\<close>

theorem deadline_stops_probe_not_sends:
  "(ctx_Err env 1 = Some e \<longrightarrow> list_all is_open_call (driver_calls (target_Collect t env))) \<and>
   (conn t = None \<and> OpenConnection env (logContext t) (dsn t) = Inl e \<and>
      ctx_Err env 0 = Some e \<longrightarrow>
      fst (ping t env) = Some e \<and>
      driver_calls (target_Collect t env) = [OpenConnection_call (dsn t) (Inl e)]) \<and>
   ((conn t = Some c \<or> (conn t = None \<and> OpenConnection env (logContext t) (dsn t) = Inr c)) \<and>
      ctx_Err env 1 = None \<and> PingDB env c = Some e \<and> ctx_Err env 2 = Some e \<longrightarrow>
      fst (ping t env) = Some e) \<and>
   (ctx_Err env 3 = Some e \<longrightarrow>
      (\<exists>e'. fst (ping t env) = Some e' \<and>
         started (target_Collect t env) = [] \<and>
         (\<forall>tr. Collect_sends t env tr \<longleftrightarrow>
            tr = [NewInvalidMetric (logContext t) e', NewMetric (upDesc t) 0 [],
                  NewMetric (scrapeDurationDesc t)
                    (real_of_int (elapsed env) * (1 / 1000000000)) []])))"
proof (intro conjI impI)
  assume "ctx_Err env 1 = Some e"
  then show "list_all is_open_call (driver_calls (target_Collect t env))"
    by (auto simp: target_Collect_ping ping_def ping_open_def ping_check_def
        split: prod.splits option.splits sum.splits if_splits)
next
  assume a: "conn t = None \<and> OpenConnection env (logContext t) (dsn t) = Inl e \<and>
      ctx_Err env 0 = Some e"
  then have 3: "ctx_Err env 3 = Some e" using ctx_Err_mono[of env 0 e 3] by simp
  from a 3 show "fst (ping t env) = Some e"
    by (simp add: ping_def ping_open_def ping_check_def)
  from a show "driver_calls (target_Collect t env) = [OpenConnection_call (dsn t) (Inl e)]"
    using Collect_conn_open_failed(2) by blast
next
  assume a: "(conn t = Some c \<or> (conn t = None \<and> OpenConnection env (logContext t) (dsn t) = Inr c)) \<and>
      ctx_Err env 1 = None \<and> PingDB env c = Some e \<and> ctx_Err env 2 = Some e"
  then have 3: "ctx_Err env 3 = Some e" using ctx_Err_mono[of env 2 e 3] by simp
  from a 3 show "fst (ping t env) = Some e"
    by (auto simp: ping_def ping_open_def ping_check_def)
next
  assume 3: "ctx_Err env 3 = Some e"
  then have "fst (ping t env) \<noteq> None"
    by (auto simp: ping_def split: prod.splits option.splits)
  then obtain e' where f: "fst (ping t env) = Some e'"
    by blast
  show "\<exists>e'. fst (ping t env) = Some e' \<and>
         started (target_Collect t env) = [] \<and>
         (\<forall>tr. Collect_sends t env tr \<longleftrightarrow>
            tr = [NewInvalidMetric (logContext t) e', NewMetric (upDesc t) 0 [],
                  NewMetric (scrapeDurationDesc t)
                    (real_of_int (elapsed env) * (1 / 1000000000)) []])"
    using f Collect_failed(2)[OF f] Collect_sends_failed[OF f] by blast
qed

lemma env_deadline_in_open_fields:
  "OpenConnection env_deadline_in_open lc d = Inl DeadlineExceeded"
  "ctx_Err env_deadline_in_open k = Some DeadlineExceeded"
  by (simp_all add: env_deadline_in_open_def ctx_Err_def)

lemma env_deadline_in_ping_fields:
  "OpenConnection env_deadline_in_ping lc d = Inr (DB 1)"
  "PingDB env_deadline_in_ping c = Some DeadlineExceeded"
  "ctx_Err env_deadline_in_ping k = (if 2 \<le> k then Some DeadlineExceeded else None)"
  by (simp_all add: env_deadline_in_ping_def ctx_Err_def)

text \<open>The amended claim C7 at a target whose open meets the deadline, and at the same
  target when the deadline expires during the ping.\<close>

theorem deadline_stops_probe_not_sends_witness:
  "conn example_target = None \<and>
   OpenConnection env_deadline_in_open (logContext example_target) (dsn example_target) =
     Inl DeadlineExceeded \<and>
   ctx_Err env_deadline_in_open 0 = Some DeadlineExceeded \<and>
   ctx_Err env_deadline_in_open 1 = Some DeadlineExceeded \<and>
   ctx_Err env_deadline_in_open 3 = Some DeadlineExceeded \<and>
   fst (ping example_target env_deadline_in_open) = Some DeadlineExceeded \<and>
   driver_calls (target_Collect example_target env_deadline_in_open) =
     [OpenConnection_call (dsn example_target) (Inl DeadlineExceeded)] \<and>
   list_all is_open_call (driver_calls (target_Collect example_target env_deadline_in_open)) \<and>
   started (target_Collect example_target env_deadline_in_open) = [] \<and>
   OpenConnection env_deadline_in_ping (logContext example_target) (dsn example_target) =
     Inr (DB 1) \<and>
   ctx_Err env_deadline_in_ping 1 = None \<and>
   PingDB env_deadline_in_ping (DB 1) = Some DeadlineExceeded \<and>
   ctx_Err env_deadline_in_ping 2 = Some DeadlineExceeded \<and>
   fst (ping example_target env_deadline_in_ping) = Some DeadlineExceeded"
proof -
  have h: "conn example_target = None \<and>
     OpenConnection env_deadline_in_open (logContext example_target) (dsn example_target) =
       Inl DeadlineExceeded \<and>
     ctx_Err env_deadline_in_open 0 = Some DeadlineExceeded"
    and h1: "ctx_Err env_deadline_in_open 1 = Some DeadlineExceeded"
    and h3: "ctx_Err env_deadline_in_open 3 = Some DeadlineExceeded"
    by (simp_all add: example_target_fields env_deadline_in_open_fields)
  have p: "(conn example_target = Some (DB 1) \<or>
       (conn example_target = None \<and>
        OpenConnection env_deadline_in_ping (logContext example_target) (dsn example_target) =
          Inr (DB 1))) \<and>
      ctx_Err env_deadline_in_ping 1 = None \<and>
      PingDB env_deadline_in_ping (DB 1) = Some DeadlineExceeded \<and>
      ctx_Err env_deadline_in_ping 2 = Some DeadlineExceeded"
    by (simp add: example_target_fields env_deadline_in_ping_fields)
  note t = deadline_stops_probe_not_sends[of env_deadline_in_open DeadlineExceeded example_target
      "DB 1"]
  note u = deadline_stops_probe_not_sends[of env_deadline_in_ping DeadlineExceeded example_target
      "DB 1"]
  from t h1 have a: "list_all is_open_call
      (driver_calls (target_Collect example_target env_deadline_in_open))"
    by blast
  from t h have b: "fst (ping example_target env_deadline_in_open) = Some DeadlineExceeded \<and>
      driver_calls (target_Collect example_target env_deadline_in_open) =
        [OpenConnection_call (dsn example_target) (Inl DeadlineExceeded)]"
    by blast
  from t h3 have c: "started (target_Collect example_target env_deadline_in_open) = []"
    by blast
  from u p have d: "fst (ping example_target env_deadline_in_ping) = Some DeadlineExceeded"
    by blast
  from p h have p': "OpenConnection env_deadline_in_ping (logContext example_target)
        (dsn example_target) = Inr (DB 1) \<and>
      ctx_Err env_deadline_in_ping 1 = None \<and>
      PingDB env_deadline_in_ping (DB 1) = Some DeadlineExceeded \<and>
      ctx_Err env_deadline_in_ping 2 = Some DeadlineExceeded"
    by auto
  from h h1 h3 a b c d p' show ?thesis by blast
qed

text \<open>
  Claim C7 as stated fails for the channel sends: the deadline has expired during the
  open (the context is done at its first read), and the task still enqueues three
  samples.
\<close>

theorem sends_after_deadline_counterexample:
  "ctx_Err env_deadline_in_open 0 = Some DeadlineExceeded \<and>
   Collect_sends example_target env_deadline_in_open
     [NewInvalidMetric (logContext example_target) DeadlineExceeded,
      NewMetric (upDesc example_target) 0 [],
      NewMetric (scrapeDurationDesc example_target)
        (real_of_int (elapsed env_deadline_in_open) * (1 / 1000000000)) []]"
proof -
  have "fst (ping example_target env_deadline_in_open) = Some DeadlineExceeded"
    by (simp add: ping_def ping_open_def ping_check_def example_target_fields
          env_deadline_in_open_fields)
  then show ?thesis
    by (simp add: Collect_sends_failed env_deadline_in_open_fields)
qed

text \<open>
  Claim C2, as amended. The context of a scrape is derived from the background context
  with the budget \<open>scrape_timeout\<close>: its deadline is the start of \<^verbatim>\<open>Gather\<close> plus
  \<open>scrape_timeout\<close>, and it is the same whatever \<open>scrape_timeout_offset\<close> is set to. No
  upstream deadline enters it.
\<close>

theorem Gather_ctx_deadline:
  "Deadline (Gather_ctx e now) = Some (now + ScrapeTimeout (Globals (config e))) \<and>
   Gather_ctx (e\<lparr>config := (config e)\<lparr>Globals :=
       (Globals (config e))\<lparr>ScrapeTimeoutOffset := offset\<rparr>\<rparr>\<rparr>) now = Gather_ctx e now"
  by (simp add: Gather_ctx_def context_WithTimeout_def context_WithDeadline_def
        context_Background_def)

text \<open>
  Claim C2 as stated fails: with a timeout of 10 s, an offset of 500 ms and an upstream
  deadline 5 s from now, the specification's effective deadline is 4.5 s from now, while
  the context of \<^verbatim>\<open>Gather\<close> expires 10 s from now.
\<close>

theorem Gather_ctx_ignores_offset_counterexample:
  "Deadline (Gather_ctx
      \<lparr>config = \<lparr>Globals = \<lparr>MinInterval = 0, ScrapeTimeout = 10000000000,
          ScrapeTimeoutOffset = 500000000, MaxConnections = 3\<rparr>\<rparr>,
       targets = [example_target]\<rparr> 0) = Some 10000000000 \<and>
   spec_effective_deadline
      \<lparr>MinInterval = 0, ScrapeTimeout = 10000000000,
       ScrapeTimeoutOffset = 500000000, MaxConnections = 3\<rparr> 0 5000000000 = 4500000000"
  by (simp add: Gather_ctx_def context_WithTimeout_def context_WithDeadline_def
        context_Background_def spec_effective_deadline_def)

section \<open>Every scrape returns\<close>

lemma Collect_sends_all:
  "\<exists>trs. list_all2 (\<lambda>(t, env) tr. Collect_sends t env tr) xs trs"
proof (induction xs)
  case Nil
  show ?case by simp
next
  case (Cons x xs)
  then obtain trs where trs: "list_all2 (\<lambda>(t, env) tr. Collect_sends t env tr) xs trs"
    by blast
  obtain tr where "Collect_sends (fst x) (snd x) tr"
    using Collect_sends_total by blast
  then have "list_all2 (\<lambda>(t, env) tr. Collect_sends t env tr) (x # xs) (tr # trs)"
    using trs by (simp add: case_prod_beta)
  then show ?case by blast
qed

lemma Gather_total:
  assumes "length envs = length (targets e)"
  shows "\<exists>r. Gather Write Desc e envs r"
proof -
  obtain trs where
    "list_all2 (\<lambda>(t, env) tr. Collect_sends t env tr) (zip (targets e) envs) trs"
    using Collect_sends_all by blast
  moreover have "interleaving trs (concat trs)"
    by (rule interleaving_concat)
  moreover have "Gather_returns Write Desc (concat trs)
     (map snd (dtoMetricFamilies (gather_loop Write Desc (concat trs))),
      errs (gather_loop Write Desc (concat trs)))"
    by (rule Gather_returns_total)
  ultimately show ?thesis
    unfolding Gather_def using assms by blast
qed

lemma Gather_drains_some_sequence:
  "Gather Write Desc e envs r \<Longrightarrow> \<exists>ms. Gather_returns Write Desc ms r"
  unfolding Gather_def by blast

lemma exporter_after_conn_kept:
  assumes "length envs = length (targets e)" and "i < length (targets e)"
    and "conn (targets e ! i) = Some c"
  shows "targets (exporter_after e envs) ! i = targets e ! i"
  using assms by (simp add: exporter_after_def Collect_conn_set(1))

end
